theory Spec2Isabelle
  imports Main "HOL-Library.Word"
begin

unbundle bit_operations_syntax

section \<open>Machine types\<close>

type_synonym u64 = "64 word"
type_synonym u32 = "32 word"

section \<open>Virtual memory descriptors (include/vm.hh)\<close>

text \<open>
  The flag bits of \<^verbatim>\<open>struct vmdesc\<close>, as the anonymous enum of vm.hh gives them.
\<close>

definition FLAG_LOCK_BIT :: nat where "FLAG_LOCK_BIT = 0"
definition FLAG_LOCK :: u64 where "FLAG_LOCK = push_bit FLAG_LOCK_BIT 1"
definition FLAG_MAPPED :: u64 where "FLAG_MAPPED = push_bit 1 1"
definition FLAG_COW :: u64 where "FLAG_COW = push_bit 2 1"
definition FLAG_ANON :: u64 where "FLAG_ANON = push_bit 3 1"
definition FLAG_WRITE :: u64 where "FLAG_WRITE = push_bit 4 1"
definition FLAG_SHARED :: u64 where "FLAG_SHARED = push_bit 5 1"

text \<open>
  \<^verbatim>\<open>page_info_ref\<close> is declared in page_info.hh, which is not among the sources. vm.hh
  says what its copy does: the copy refers to the same physical page and carries an empty
  page tracker ("not cached on any core"). A reference is the address of the page's
  \<^verbatim>\<open>page_info\<close> (\<open>None\<close> for the null reference); the tracker is the list of cores that
  cache the translation.
\<close>

record page_info_ref =
  page_ptr :: "nat option"
  tracker :: "nat list"

definition page_info_ref_copy :: "page_info_ref \<Rightarrow> page_info_ref" where
  "page_info_ref_copy p = \<lparr>page_ptr = page_ptr p, tracker = []\<rparr>"

text \<open>
  \<^verbatim>\<open>struct vmdesc\<close>: \<open>inode\<close> is the \<^verbatim>\<open>sref<pageable>\<close> (the address of the pageable, or
  \<open>None\<close>), \<open>start\<close> the \<^verbatim>\<open>intptr_t\<close> offset, kept as its 64-bit pattern.
\<close>

record vmdesc =
  flags :: u64
  page :: page_info_ref
  inode :: "nat option"
  start :: u64

text \<open>The public constructors.\<close>

definition vmdesc_unmapped :: vmdesc where
  "vmdesc_unmapped = \<lparr>flags = 0, page = \<lparr>page_ptr = None, tracker = []\<rparr>, inode = None, start = 0\<rparr>"

definition vmdesc_file :: "nat option \<Rightarrow> u64 \<Rightarrow> vmdesc" where
  "vmdesc_file ip st =
     \<lparr>flags = FLAG_MAPPED OR FLAG_WRITE, page = \<lparr>page_ptr = None, tracker = []\<rparr>,
      inode = ip, start = st\<rparr>"

definition anon_desc :: vmdesc where
  "anon_desc =
     \<lparr>flags = FLAG_MAPPED OR FLAG_ANON OR FLAG_WRITE, page = \<lparr>page_ptr = None, tracker = []\<rparr>,
      inode = None, start = 0\<rparr>"

definition is_set :: "vmdesc \<Rightarrow> bool" where
  "is_set d = (flags d AND FLAG_MAPPED \<noteq> 0)"

text \<open>
  \<^verbatim>\<open>vmdesc dup() const { return vmdesc(flags & ~FLAG_LOCK, page_info_ref(page), inode, start); }\<close>
\<close>

definition dup :: "vmdesc \<Rightarrow> vmdesc" where
  "dup d =
     \<lparr>flags = flags d AND NOT FLAG_LOCK, page = page_info_ref_copy (page d),
      inode = inode d, start = start d\<rparr>"

section \<open>Constants of headers that are not among the sources\<close>

text \<open>
  trap.cc names constants of traps.h, mmu.h, memlayout.h, cpu.hh and the signal numbers;
  none of these headers is among the sources, so the model takes the constants as a
  parameter \<open>K\<close>. Vector and line numbers are natural numbers, addresses are 64-bit words.
  \<open>uaccess_end\<close> is the address of the symbol \<^verbatim>\<open>__uaccess_end\<close>.
\<close>

record kconsts =
  T_ILLOP :: nat
  T_PGFLT :: nat
  T_IRQ0 :: nat
  IRQ_TIMER :: nat
  IRQ_KBD :: nat
  IRQ_COM2 :: nat
  IRQ_COM1 :: nat
  IRQ_MOUSE :: nat
  IRQ_IDE :: nat
  IRQ_ERROR :: nat
  IRQ_SPURIOUS :: nat
  T_TLBFLUSH :: nat
  T_SAMPCONF :: nat
  T_PAUSE :: nat
  T_IPICALL :: nat
  T_WAKE_CORE :: nat
  FEC_U :: u32
  KBASE :: u64
  KTEXT :: u64
  KTEXTEND :: u64
  KGLOBAL :: u64
  USERTOP :: u64
  SIGSEGV :: nat
  NO_SCHED_COUNT_YIELD_REQUESTED :: u64
  uaccess_end :: u64

text \<open>
  The case labels of the \<^verbatim>\<open>switch\<close> in \<^verbatim>\<open>trap\<close>, in the order of the source. A C compiler
  accepts the \<^verbatim>\<open>switch\<close> only if they are pairwise different.
\<close>

definition case_labels :: "kconsts \<Rightarrow> nat list" where
  "case_labels K =
     [T_IRQ0 K + IRQ_TIMER K, T_IRQ0 K + IRQ_IDE K, T_IRQ0 K + IRQ_IDE K + 1,
      T_IRQ0 K + IRQ_KBD K, T_IRQ0 K + IRQ_MOUSE K, T_IRQ0 K + IRQ_COM2 K,
      T_IRQ0 K + IRQ_COM1 K, T_IRQ0 K + 7, T_IRQ0 K + IRQ_SPURIOUS K,
      T_IRQ0 K + IRQ_ERROR K, T_TLBFLUSH K, T_SAMPCONF K, T_PAUSE K, T_IPICALL K,
      T_WAKE_CORE K]"

definition labels_distinct :: "kconsts \<Rightarrow> bool" where
  "labels_distinct K = distinct (case_labels K)"

text \<open>
  One admissible choice of the constants, for evaluating the model on concrete inputs:
  the exception numbers, the page-fault error bit and the interrupt vectors as the x86
  architecture and the xv6 family of kernels number them.
\<close>

definition K0 :: kconsts where
  "K0 = \<lparr>T_ILLOP = 6, T_PGFLT = 14, T_IRQ0 = 32, IRQ_TIMER = 0, IRQ_KBD = 1, IRQ_COM2 = 3,
          IRQ_COM1 = 4, IRQ_MOUSE = 12, IRQ_IDE = 14, IRQ_ERROR = 19, IRQ_SPURIOUS = 31,
          T_TLBFLUSH = 65, T_SAMPCONF = 66, T_PAUSE = 68, T_IPICALL = 67, T_WAKE_CORE = 69,
          FEC_U = 4, KBASE = 0xFFFFFF0000000000, KTEXT = 0xFFFFFFFFC0000000,
          KTEXTEND = 0xFFFFFFFFC0200000, KGLOBAL = 0xFFFFFFFFC0000000,
          USERTOP = 0x0000800000000000, SIGSEGV = 11,
          NO_SCHED_COUNT_YIELD_REQUESTED = 0x80000000, uaccess_end = 0xFFFFFFFFC0100000\<rparr>"

text \<open>
  The two exceptions the dispatcher treats itself, illegal instruction and page fault, are
  vectors of the architecture: they lie below the IRQ vectors, differ from each other and
  are no case label of the \<^verbatim>\<open>switch\<close>.
\<close>

definition exceptions_ok :: "kconsts \<Rightarrow> bool" where
  "exceptions_ok K =
     (T_ILLOP K < T_IRQ0 K \<and> T_PGFLT K < T_IRQ0 K \<and> T_ILLOP K \<noteq> T_PGFLT K
      \<and> T_ILLOP K \<notin> set (case_labels K) \<and> T_PGFLT K \<notin> set (case_labels K))"

section \<open>Per-core state and interrupt-disable nesting (kernel/trap.cc)\<close>

text \<open>
  A panic of the kernel, with its message. \<^verbatim>\<open>panic\<close> never returns (console.cc: it halts
  and spins), so a function that may panic returns \<open>panic + state\<close>.
\<close>

datatype panic = Panic string

text \<open>
  The fields of \<^verbatim>\<open>struct cpu\<close> that trap.cc reads or writes (the struct is declared in
  cpu.hh, not among the sources), together with the interrupt flag of the core's RFLAGS.
  \<open>ncli\<close> is a C \<^verbatim>\<open>int\<close>: a 32-bit word, read as signed where the code compares it with
  0. \<open>intena\<close> is an \<^verbatim>\<open>int\<close> that the code only tests for being nonzero.
\<close>

record cpu =
  cpu_id :: nat
  ncli :: "32 word"
  intena :: bool
  no_sched_count :: u64
  timer_printpc :: nat
  rflags_IF :: bool

text \<open>\<^verbatim>\<open>cli()\<close> and \<^verbatim>\<open>sti()\<close> clear and set the interrupt flag.\<close>

definition cli :: "cpu \<Rightarrow> cpu" where
  "cli c = c\<lparr>rflags_IF := False\<rparr>"

definition sti :: "cpu \<Rightarrow> cpu" where
  "sti c = c\<lparr>rflags_IF := True\<rparr>"

text \<open>
  \<^verbatim>\<open>rflags = readrflags(); cli(); if(mycpu()->ncli++ == 0) mycpu()->intena = rflags & FL_IF;\<close>
\<close>

definition pushcli :: "cpu \<Rightarrow> cpu" where
  "pushcli c =
     (let rflags_if = rflags_IF c;
          c1 = cli c;
          old = ncli c1;
          c2 = c1\<lparr>ncli := old + 1\<rparr>
      in if old = 0 then c2\<lparr>intena := rflags_if\<rparr> else c2)"

text \<open>
  \<^verbatim>\<open>if(readrflags()&FL_IF) panic("popcli - interruptible");\<close>
  \<^verbatim>\<open>if(--mycpu()->ncli < 0) panic("popcli");\<close>
  \<^verbatim>\<open>if(mycpu()->ncli == 0 && mycpu()->intena) sti();\<close>
\<close>

definition popcli :: "cpu \<Rightarrow> panic + cpu" where
  "popcli c =
     (if rflags_IF c then Inl (Panic ''popcli - interruptible'')
      else let c1 = c\<lparr>ncli := ncli c - 1\<rparr> in
        if ncli c1 <s 0 then Inl (Panic ''popcli'')
        else if ncli c1 = 0 \<and> intena c1 then Inr (sti c1)
        else Inr c1)"

text \<open>A sequence of calls on one core, stopping at the first panic.\<close>

datatype cli_call = Pushcli | Popcli

fun run_cli :: "cli_call list \<Rightarrow> cpu \<Rightarrow> panic + cpu" where
  "run_cli [] c = Inr c"
| "run_cli (Pushcli # ops) c = run_cli ops (pushcli c)"
| "run_cli (Popcli # ops) c = (case popcli c of Inl p \<Rightarrow> Inl p | Inr c' \<Rightarrow> run_cli ops c')"

text \<open>
  \<open>nesting d ops\<close> is the number of open \<^verbatim>\<open>pushcli\<close> after the calls \<open>ops\<close>, starting with
  \<open>d\<close> open ones; \<open>None\<close> when some \<^verbatim>\<open>popcli\<close> has no \<^verbatim>\<open>pushcli\<close> to match.
  \<open>max_nesting d ops\<close> is the deepest nesting reached. A sequence is matched when it
  starts and ends with nothing open.
\<close>

fun nesting :: "nat \<Rightarrow> cli_call list \<Rightarrow> nat option" where
  "nesting d [] = Some d"
| "nesting d (Pushcli # ops) = nesting (Suc d) ops"
| "nesting d (Popcli # ops) = (case d of 0 \<Rightarrow> None | Suc d' \<Rightarrow> nesting d' ops)"

fun max_nesting :: "nat \<Rightarrow> cli_call list \<Rightarrow> nat" where
  "max_nesting d [] = d"
| "max_nesting d (Pushcli # ops) = max d (max_nesting (Suc d) ops)"
| "max_nesting d (Popcli # ops) = max d (max_nesting (d - 1) ops)"

definition matched :: "cli_call list \<Rightarrow> bool" where
  "matched ops = (nesting 0 ops = Some 0)"

text \<open>
  The invariant of the nesting: with \<open>d\<close> scopes open, \<open>ncli\<close> is \<open>d\<close>; outside every scope
  the interrupt flag is what it was (\<open>b\<close>); inside, interrupts are off and \<open>intena\<close>
  remembers \<open>b\<close>.
\<close>

definition cli_inv :: "bool \<Rightarrow> nat \<Rightarrow> cpu \<Rightarrow> bool" where
  "cli_inv b d c =
     (unat (ncli c) = d \<and> (if d = 0 then rflags_IF c = b else \<not> rflags_IF c \<and> intena c = b))"

definition cpu0 :: cpu where
  "cpu0 = \<lparr>cpu_id = 0, ncli = 0, intena = False, no_sched_count = 0, timer_printpc = 0,
            rflags_IF = True\<rparr>"

section \<open>The NMI entry path (kernel/trap.cc)\<close>

text \<open>
  \<^verbatim>\<open>struct nmiframe\<close> is declared in mmu.h (not among the sources); \<^verbatim>\<open>nmientry_c\<close> reads its
  \<^verbatim>\<open>rip\<close> and \<^verbatim>\<open>gsbase\<close>. The state of the path: the GS base MSR, the core, and the two
  per-core variables \<^verbatim>\<open>nmi_lastpc\<close> (\<^verbatim>\<open>uintptr_t\<close>) and \<^verbatim>\<open>nmi_swallow\<close> (\<^verbatim>\<open>int\<close>).
\<close>

record nmiframe =
  nmi_rip :: u64
  nmi_gsbase :: u64

record nmi_state =
  gs_base :: u64
  nmi_cpu :: cpu
  nmi_lastpc :: u64
  nmi_swallow :: "32 word"

text \<open>
  \<^verbatim>\<open>sampintr\<close> (sampler.cc, not among the sources) is a parameter: it returns the number of
  NMI sources it handled and may change the core's state (a lock it takes calls
  \<^verbatim>\<open>pushcli\<close>, which is why the code saves and restores \<open>intena\<close>).
\<close>

definition nmientry_c ::
  "(nmiframe \<Rightarrow> cpu \<Rightarrow> 32 word \<times> cpu) \<Rightarrow> nmiframe \<Rightarrow> nmi_state \<Rightarrow> panic + nmi_state" where
  "nmientry_c sampintr tf s =
     (let saved_gsbase = gs_base s;
          s1 = s\<lparr>gs_base := nmi_gsbase tf\<rparr>;
          intena_save = intena (nmi_cpu s1);
          repeat = (nmi_lastpc s1 = nmi_rip tf);
          s2 = s1\<lparr>nmi_lastpc := nmi_rip tf\<rparr>;
          s3 = (if \<not> repeat then s2\<lparr>nmi_swallow := 0\<rparr> else s2);
          (n, c) = sampintr tf (nmi_cpu s3);
          handled = 0 + n;
          s4 = s3\<lparr>nmi_cpu := c\<rparr>
      in if handled = 0 \<and> nmi_swallow s4 = 0 then Inl (Panic ''NMI'')
         else let s5 = s4\<lparr>nmi_swallow := nmi_swallow s4 + (handled - 1)\<rparr>;
                  s6 = s5\<lparr>nmi_cpu := (nmi_cpu s5)\<lparr>intena := intena_save\<rparr>\<rparr>
              in Inr (s6\<lparr>gs_base := saved_gsbase\<rparr>))"

text \<open>Concrete inputs: a sampler that finds no source, and one that finds two.\<close>

definition sampintr_none :: "nmiframe \<Rightarrow> cpu \<Rightarrow> 32 word \<times> cpu" where
  "sampintr_none tf c = (0, c)"

definition sampintr_two :: "nmiframe \<Rightarrow> cpu \<Rightarrow> 32 word \<times> cpu" where
  "sampintr_two tf c = (2, c)"

definition nmiframe0 :: nmiframe where
  "nmiframe0 = \<lparr>nmi_rip = 4096, nmi_gsbase = 0\<rparr>"

definition nmi_state0 :: "u64 \<Rightarrow> 32 word \<Rightarrow> nmi_state" where
  "nmi_state0 pc n = \<lparr>gs_base = 0, nmi_cpu = cpu0, nmi_lastpc = pc, nmi_swallow = n\<rparr>"

section \<open>The IRQ registry (kernel/trap.cc)\<close>

text \<open>
  \<^verbatim>\<open>static struct irq_info { irq_handler *handlers; bool in_use; } irq_info[256 - T_IRQ0];\<close>
  The handler chain is a null-terminated linked list through \<^verbatim>\<open>irq_handler::next\<close>; the
  model keeps it as the list of the handlers' addresses, head first. The table is a list
  of \<open>256 - T_IRQ0\<close> entries; a static array starts zeroed.
\<close>

record irq_info =
  handlers :: "nat list"
  in_use :: bool

definition irq_info_init :: "kconsts \<Rightarrow> irq_info list" where
  "irq_info_init K = replicate (256 - T_IRQ0 K) \<lparr>handlers = [], in_use = False\<rparr>"

text \<open>
  An index computed in C \<^verbatim>\<open>int\<close> arithmetic is in range when it is not negative and below
  the length. Reading or writing the array out of range is undefined behaviour, which
  the model reports instead of hiding.
\<close>

definition in_range :: "int \<Rightarrow> 'a list \<Rightarrow> bool" where
  "in_range i xs = (0 \<le> i \<and> i < int (length xs))"

definition mark_in_use :: "int \<Rightarrow> irq_info list \<Rightarrow> irq_info list option" where
  "mark_in_use i t =
     (if in_range i t then Some (t[nat i := (t ! nat i)\<lparr>in_use := True\<rparr>]) else None)"

text \<open>
  \<^verbatim>\<open>for (int i = 0; i < 16; ++i) irq_info[i].in_use = true;\<close>, counting \<open>n\<close> remaining
  rounds from index \<open>i\<close>.
\<close>

fun mark_from :: "nat \<Rightarrow> int \<Rightarrow> irq_info list \<Rightarrow> irq_info list option" where
  "mark_from 0 i t = Some t"
| "mark_from (Suc n) i t =
     (case mark_in_use i t of None \<Rightarrow> None | Some t' \<Rightarrow> mark_from n (i + 1) t')"

text \<open>
  The part of \<^verbatim>\<open>inittrap\<close> that writes the registry: the sixteen legacy lines, the
  spurious line and the line of vector 255. The loop that comes first and fills the
  interrupt descriptor table is left out; no function of trap.cc reads the table back.
  \<open>None\<close> is an out-of-range write.
\<close>

definition inittrap :: "kconsts \<Rightarrow> irq_info list \<Rightarrow> irq_info list option" where
  "inittrap K t =
     (case mark_from 16 0 t of None \<Rightarrow> None
      | Some t1 \<Rightarrow>
          (case mark_in_use (int (IRQ_SPURIOUS K)) t1 of None \<Rightarrow> None
           | Some t2 \<Rightarrow> mark_in_use (255 - int (T_IRQ0 K)) t2))"

text \<open>
  \<^verbatim>\<open>struct irq\<close> is declared in irq.hh (not among the sources); trap.cc uses its fields
  \<^verbatim>\<open>gsi\<close>, \<^verbatim>\<open>vector\<close>, \<^verbatim>\<open>level_triggered\<close> and \<^verbatim>\<open>active_low\<close>, and its method
  \<^verbatim>\<open>valid()\<close>, whose result is a parameter of the functions below.
\<close>

record irq =
  vector :: int
  gsi :: int
  level_triggered :: bool
  active_low :: bool

text \<open>
  What a function of the registry can do besides returning: fail an \<^verbatim>\<open>assert\<close>, or index
  \<^verbatim>\<open>irq_info\<close> out of range.
\<close>

datatype 'a result = Done 'a | Assert_failed | Out_of_bounds

text \<open>
  The first loop of \<^verbatim>\<open>irq::reserve\<close>: the first candidate whose line is free, \<open>-1\<close> when
  there is none. The source does not check a candidate against the array bounds.
\<close>

fun find_accept :: "irq_info list \<Rightarrow> int list \<Rightarrow> int option" where
  "find_accept t [] = Some (- 1)"
| "find_accept t (g # gs) =
     (if \<not> in_range g t then None
      else if \<not> in_use (t ! nat g) then Some g
      else find_accept t gs)"

text \<open>
  The second loop, \<^verbatim>\<open>for (try_gsi = N - 1; try_gsi >= 0; --try_gsi)\<close>:
  \<open>find_free t n\<close> tries the lines \<open>n - 1\<close> down to 0.
\<close>

fun find_free :: "irq_info list \<Rightarrow> nat \<Rightarrow> int" where
  "find_free t 0 = - 1"
| "find_free t (Suc n) = (if \<not> in_use (t ! n) then int n else find_free t n)"

text \<open>
  \<^verbatim>\<open>bool irq::reserve(const int *accept_gsi, size_t num_accept)\<close>. The candidates are the
  list \<open>accept_gsi\<close> (\<open>None\<close> for the null pointer); the result holds the returned
  boolean, the registry and the \<^verbatim>\<open>irq\<close> object.
\<close>

definition irq_reserve ::
  "kconsts \<Rightarrow> bool \<Rightarrow> int list option \<Rightarrow> irq_info list \<Rightarrow> irq \<Rightarrow> (bool \<times> irq_info list \<times> irq) result" where
  "irq_reserve K valid accept_gsi t this =
     (if valid then Assert_failed
      else case (case accept_gsi of Some gs \<Rightarrow> find_accept t gs
                 | None \<Rightarrow> Some (find_free t (length t))) of
        None \<Rightarrow> Out_of_bounds
      | Some g \<Rightarrow>
          if g = - 1 then Done (False, t, this)
          else Done (True, t[nat g := (t ! nat g)\<lparr>in_use := True\<rparr>],
                     this\<lparr>gsi := g, vector := int (T_IRQ0 K) + g\<rparr>))"

text \<open>
  \<^verbatim>\<open>void irq::register_handler(irq_handler *handler)\<close>: the handler becomes the head of
  the chain of the line.
\<close>

definition register_handler ::
  "kconsts \<Rightarrow> bool \<Rightarrow> nat \<Rightarrow> irq_info list \<Rightarrow> irq \<Rightarrow> irq_info list result" where
  "register_handler K valid handler t this =
     (if \<not> valid then Assert_failed
      else if vector this \<noteq> gsi this + int (T_IRQ0 K) then Assert_failed
      else if \<not> in_range (gsi this) t then Out_of_bounds
      else Done (t[nat (gsi this) :=
                   (t ! nat (gsi this))\<lparr>handlers := handler # handlers (t ! nat (gsi this))\<rparr>]))"

text \<open>
  A sequence of \<^verbatim>\<open>reserve\<close> calls, each on an \<^verbatim>\<open>irq\<close> object that is not valid yet, with
  its candidates. The result lists the objects of the calls that returned true, in
  order.
\<close>

fun reserve_seq ::
  "kconsts \<Rightarrow> (int list option \<times> irq) list \<Rightarrow> irq_info list \<Rightarrow> (irq list \<times> irq_info list) result" where
  "reserve_seq K [] t = Done ([], t)"
| "reserve_seq K ((a, q) # rs) t =
     (case irq_reserve K False a t q of
        Done (ok, t', q') \<Rightarrow>
          (case reserve_seq K rs t' of
             Done (qs, t'') \<Rightarrow> Done ((if ok then [q'] else []) @ qs, t'')
           | Assert_failed \<Rightarrow> Assert_failed
           | Out_of_bounds \<Rightarrow> Out_of_bounds)
      | Assert_failed \<Rightarrow> Assert_failed
      | Out_of_bounds \<Rightarrow> Out_of_bounds)"

definition irq_none :: irq where
  "irq_none = \<lparr>vector = - 1, gsi = - 1, level_triggered = False, active_low = False\<rparr>"

definition reserve_requests0 :: "(int list option \<times> irq) list" where
  "reserve_requests0 = [(None, irq_none), (Some [5, 20], irq_none), (None, irq_none)]"

section \<open>The trap dispatcher (kernel/trap.cc, kernel/console.cc)\<close>

subsection \<open>State\<close>

text \<open>
  The fields of \<^verbatim>\<open>struct trapframe\<close> (mmu.h, not among the sources) that trap.cc and
  console.cc name. \<open>padding3_0\<close> and \<open>padding3_1\<close> are \<^verbatim>\<open>padding3[0]\<close> and \<^verbatim>\<open>padding3[1]\<close>.
\<close>

record trapframe =
  rax :: u64
  rcx :: u64
  rdx :: u64
  rbx :: u64
  rsp :: u64
  rbp :: u64
  rsi :: u64
  rdi :: u64
  r8 :: u64
  r9 :: u64
  r10 :: u64
  r11 :: u64
  r12 :: u64
  r13 :: u64
  r14 :: u64
  r15 :: u64
  rip :: u64
  rflags :: u64
  trapno :: u64
  err :: u32
  cs :: "16 word"
  ss :: "16 word"
  padding3_0 :: u64
  padding3_1 :: u64

text \<open>
  The fields of \<^verbatim>\<open>struct proc\<close> (proc.hh, not among the sources) that the dispatcher and
  \<^verbatim>\<open>printtrap\<close> read or write; \<open>proc_uaccess\<close> and \<open>proc_yield\<close> are the fields \<^verbatim>\<open>uaccess_\<close> and
  \<^verbatim>\<open>yield_\<close>, \<open>proc_state\<close> is what \<^verbatim>\<open>get_state()\<close> returns, \<open>kstack\<close> is the address of the
  kernel stack (0 for a null pointer).
\<close>

datatype procstate = EMBRYO | SLEEPING | RUNNABLE | RUNNING | ZOMBIE

record proc =
  killed :: bool
  proc_yield :: bool
  proc_uaccess :: bool
  proc_state :: procstate
  transparent_barriers :: u64
  intentional_barriers :: u64
  kstack :: u64

text \<open>
  What the dispatcher does to the rest of the kernel, in the order it does it: the calls
  of functions defined outside trap.cc (device handlers, the local APIC and the PIC, the
  scheduler) and the calls of the printing functions, with the arguments that matter.
  A print that comes back is an event (\<open>Printtrap\<close> is the register dump, with the name of
  the trap it prints); a print on a kernel that has panicked does not come back, see
  \<open>print_event\<close> below. \<open>Yield\<close> carries the value \<^verbatim>\<open>mycpu()->no_sched_count\<close> has when \<^verbatim>\<open>yield()\<close>
  is called.
\<close>

datatype event =
    Kstats_inc string
  | Cprintf string
  | Timerintr
  | Refcache_tick
  | Lapiceoi
  | Piceoi
  | Ideintr
  | Kbdintr
  | Mouseintr
  | Uartintr
  | Tlb_shootdown_on_ipi
  | Sampconf
  | Pause_cpu
  | On_ipicall
  | Handle_irq nat
  | Pagefault u64 u32
  | Deliver_signal nat
  | Switch_to_kstack
  | Getcallerpcs u64
  | Wb_increment string u64
  | Registered_trap_handler nat
  | Uerr_println string
  | Tryacquire_cons_lock
  | Printtrap string
  | Halt
  | Procexit int
  | Yield u64

text \<open>
  The kernel state the dispatcher works on: the trap frame it was called with, the
  core (\<^verbatim>\<open>mycpu()\<close>), the current process (\<^verbatim>\<open>myproc()\<close>, \<open>None\<close> for the null pointer), the
  IRQ registry, the table \<^verbatim>\<open>registered_trap_handlers\<close> (the handler's address, \<open>None\<close>
  for a null entry), \<^verbatim>\<open>secrets_mapped\<close>, the instrumentation counters \<^verbatim>\<open>ENTRY_COUNT\<close> and
  \<^verbatim>\<open>ENTRY_TIMES\<close>, the console's \<^verbatim>\<open>panicked\<close> flag, and the events so far.
\<close>

record kstate =
  frame :: trapframe
  cpu :: cpu
  proc :: "proc option"
  irq_tab :: "irq_info list"
  registered_trap_handlers :: "nat \<Rightarrow> nat option"
  secrets_mapped :: bool
  ENTRY_COUNT :: u64
  ENTRY_TIMES :: "u64 \<Rightarrow> u64"
  panicked :: bool
  trace :: "event list"

text \<open>
  What the dispatcher reads from hardware and from functions defined elsewhere:
  \<^verbatim>\<open>rcr2()\<close>; the result of \<^verbatim>\<open>pagefault(vmap, addr, err)\<close> on the current address space;
  the result of \<^verbatim>\<open>deliver_signal\<close>; the eight bytes of memory at an address; the memory
  \<open>k > 0\<close> words after the slot of register \<open>r\<close> in the trap frame (the layout of the
  frame is not in the sources); the return addresses \<^verbatim>\<open>getcallerpcs\<close> finds;
  \<^verbatim>\<open>cmdline_params.track_wbs\<close>; the debug-control MSR; the return address of the call of
  \<^verbatim>\<open>ensure_secrets\<close>; and what a \<^verbatim>\<open>yield()\<close> does to the process before it runs again.
  These calls are taken to leave the rest of \<open>kstate\<close> as it is.
\<close>

record env =
  rcr2 :: u64
  pagefault :: "u64 \<Rightarrow> u32 \<Rightarrow> int"
  deliver_signal :: "nat \<Rightarrow> bool"
  mem_u64 :: "u64 \<Rightarrow> u64"
  beyond :: "nat \<Rightarrow> nat \<Rightarrow> u64"
  callerpcs :: "u64 \<Rightarrow> nat \<Rightarrow> u64"
  track_wbs :: bool
  debugctl :: u64
  return_address :: u64
  after_yield :: "proc \<Rightarrow> proc"

definition emit :: "event \<Rightarrow> kstate \<Rightarrow> kstate" where
  "emit e s = s\<lparr>trace := trace s @ [e]\<rparr>"

text \<open>The events a run added: the trace of \<open>s'\<close> after the part \<open>s\<close> already had.\<close>

definition events_since :: "kstate \<Rightarrow> kstate \<Rightarrow> event list" where
  "events_since s s' = drop (length (trace s)) (trace s')"

text \<open>
  How a trap ends: it returns to the interrupted context, the process exits
  (\<^verbatim>\<open>procexit\<close> does not return), the kernel halts (\<^verbatim>\<open>kerneltrap\<close> and \<^verbatim>\<open>panic\<close> do not
  return), the core spins for ever inside a print because the kernel had panicked
  before, or the C code has no defined behaviour (a null \<^verbatim>\<open>myproc()\<close> dereferenced, an
  array indexed out of range). Inside the \<^verbatim>\<open>switch\<close>, a case ends with \<^verbatim>\<open>break\<close>, with
  \<^verbatim>\<open>return\<close>, or does not come back.
\<close>

datatype outcome = Returned | Exited | Halted | Frozen | Undefined

datatype flow = Break | Return | Stop outcome

definition stopped :: "outcome \<times> kstate \<Rightarrow> flow \<times> kstate" where
  "stopped r = (Stop (fst r), snd r)"

subsection \<open>Prints (console.cc)\<close>

text \<open>
  Every print of the kernel (\<^verbatim>\<open>cprintf\<close>, \<^verbatim>\<open>__cprintf\<close>, the console stream \<^verbatim>\<open>uerr\<close>) sends its
  bytes through \<^verbatim>\<open>consputc\<close>, which starts with \<^verbatim>\<open>if(panicked){ cli(); for(;;) ; }\<close>. Once
  the kernel has panicked, a print never comes back: interrupts go off and the core
  spins. A step that may not come back has a result of type \<open>step\<close>: \<open>Inl\<close> with the outcome
  and the state in which the core stops, or \<open>Inr\<close> with the state in which the code goes
  on; \<open>and_then\<close> runs the next step if there is one. The console lock is taken to be free.
\<close>

type_synonym step = "(outcome \<times> kstate) + kstate"

definition print_event :: "event \<Rightarrow> kstate \<Rightarrow> step" where
  "print_event e s =
     (if panicked s then Inl (Frozen, s\<lparr>cpu := cli (cpu s)\<rparr>) else Inr (emit e s))"

definition and_then :: "step \<Rightarrow> (kstate \<Rightarrow> step) \<Rightarrow> step" where
  "and_then r f = (case r of Inl stop \<Rightarrow> Inl stop | Inr s \<Rightarrow> f s)"

text \<open>
  The loop over the return addresses that \<^verbatim>\<open>getcallerpcs\<close> found, in \<^verbatim>\<open>trap\<close> and in
  \<^verbatim>\<open>printtrace\<close>: \<^verbatim>\<open>for (i = 0; i < 10 && pc[i]; i++) cprintf(...)\<close>, one print for each
  address up to the first that is 0. \<open>pcs_found\<close> is the number of addresses it prints.
\<close>

fun print_pcs :: "env \<Rightarrow> u64 \<Rightarrow> string \<Rightarrow> nat \<Rightarrow> nat \<Rightarrow> kstate \<Rightarrow> step" where
  "print_pcs E bp msg i 0 s = Inr s"
| "print_pcs E bp msg i (Suc n) s =
     (if callerpcs E bp i \<noteq> 0 then
        (case print_event (Cprintf msg) s of
           Inl stop \<Rightarrow> Inl stop
         | Inr s1 \<Rightarrow> print_pcs E bp msg (i + 1) n s1)
      else Inr s)"

fun pcs_found :: "env \<Rightarrow> u64 \<Rightarrow> nat \<Rightarrow> nat \<Rightarrow> nat" where
  "pcs_found E bp i 0 = 0"
| "pcs_found E bp i (Suc n) =
     (if callerpcs E bp i \<noteq> 0 then Suc (pcs_found E bp (i + 1) n) else 0)"

subsection \<open>The instrumentation hook\<close>

text \<open>
  The three places that record an entry time share these lines:
  \<^verbatim>\<open>u64 start = (tf->rax & 0xffffffff) | ((tf->rdx & 0xffffffff) << 32);\<close>
  \<^verbatim>\<open>u64 end = (tf->padding3[1] & 0xffffffff) | ((tf->padding3[0] & 0xffffffff) << 32);\<close>
  \<^verbatim>\<open>ENTRY_TIMES[ENTRY_COUNT++] = end - start;\<close>
\<close>

definition record_entry_time :: "kstate \<Rightarrow> kstate" where
  "record_entry_time s =
     (let tf = frame s;
          start = (rax tf AND 0xffffffff) OR push_bit 32 (rdx tf AND 0xffffffff);
          fin = (padding3_1 tf AND 0xffffffff) OR push_bit 32 (padding3_0 tf AND 0xffffffff)
      in s\<lparr>ENTRY_TIMES := (ENTRY_TIMES s)(ENTRY_COUNT s := fin - start),
            ENTRY_COUNT := ENTRY_COUNT s + 1\<rparr>)"

subsection \<open>Page faults\<close>

text \<open>
  \<^verbatim>\<open>int do_pagefault(struct trapframe *tf, bool had_secrets)\<close>. The result is \<open>None\<close> when
  the code dereferences a null \<^verbatim>\<open>myproc()\<close>. \<^verbatim>\<open>||\<close> evaluates \<^verbatim>\<open>deliver_signal\<close> only when
  the resolver failed.
\<close>

definition do_pagefault :: "kconsts \<Rightarrow> env \<Rightarrow> bool \<Rightarrow> kstate \<Rightarrow> int option \<times> kstate" where
  "do_pagefault K E had_secrets s =
     (let tf = frame s; addr = rcr2 E in
      if addr = 123 then
        (let s1 = record_entry_time s
         in (Some 0, s1\<lparr>frame := (frame s1)\<lparr>rip := rip (frame s1) + 8\<rparr>\<rparr>))
      else if (cs tf AND 3 = 0 \<or> proc s = None) \<and> \<not> had_secrets \<and> KGLOBAL K \<le> addr then
        (let s1 = emit Switch_to_kstack s;
             s2 = (if track_wbs E then
                     (let a = emit (Getcallerpcs (rbp tf)) s1;
                          pc0 = callerpcs E (rbp tf) 0;
                          pc1 = callerpcs E (rbp tf) 1;
                          bt = (rip tf AND 0x1fffff) OR push_bit 21 (pc0 AND 0x1fffff)
                                 OR push_bit 42 (pc1 AND 0x1fffff)
                      in emit (Wb_increment ''transparent_wb_rips'' bt) a)
                   else s1);
             s3 = (case proc s2 of
                     None \<Rightarrow> s2
                   | Some p \<Rightarrow>
                       if \<not> had_secrets
                       then s2\<lparr>proc := Some (p\<lparr>transparent_barriers := transparent_barriers p + 1\<rparr>)\<rparr>
                       else s2)
         in (Some 0, s3))
      else if addr < USERTOP K \<and> err tf AND FEC_U K \<noteq> 0 then
        (case proc s of
           None \<Rightarrow> (None, s\<lparr>cpu := sti (cpu s)\<rparr>)
         | Some p \<Rightarrow>
             (let s1 = s\<lparr>cpu := sti (cpu s)\<rparr>;
                  s2 = emit (Pagefault addr (err tf)) s1;
                  r = pagefault E addr (err tf);
                  s3 = s2\<lparr>cpu := cli (cpu s2)\<rparr>
              in if 0 \<le> r then (Some 0, s3)
                 else (let s4 = emit (Deliver_signal (SIGSEGV K)) s3
                       in if deliver_signal E (SIGSEGV K) then (Some 0, s4)
                          else (Some (- 1), s4))))
      else (case proc s of
              None \<Rightarrow> (Some (- 1), s)
            | Some p \<Rightarrow>
                if proc_uaccess p then
                  (let resolved =
                         (if proc_uaccess p \<and> ncli (cpu s) = 0 then
                            (let s1 = s\<lparr>cpu := sti (cpu s)\<rparr>;
                                 s2 = emit (Pagefault addr (err tf)) s1;
                                 r = pagefault E addr (err tf)
                             in (0 \<le> r, s2\<lparr>cpu := cli (cpu s2)\<rparr>))
                          else (False, s))
                   in if fst resolved then (Some 0, snd resolved)
                      else (let s3 = snd resolved
                            in (Some 0,
                                s3\<lparr>frame := (frame s3)\<lparr>rax := - 1, rip := uaccess_end K\<rparr>\<rparr>)))
                else (Some (- 1), s)))"

subsection \<open>Fatal traps (console.cc)\<close>

text \<open>
  \<^verbatim>\<open>void printtrace(u64 rbp)\<close>: \<^verbatim>\<open>getcallerpcs\<close>, then one line for each return address.
\<close>

definition printtrace :: "env \<Rightarrow> u64 \<Rightarrow> kstate \<Rightarrow> step" where
  "printtrace E bp s = print_pcs E bp ''  pc'' 0 10 (emit (Getcallerpcs bp) s)"

text \<open>
  \<^verbatim>\<open>const char *trapnames[]\<close>, with its 21 entries, and \<^verbatim>\<open>sizeof(trapnames)\<close>: the size of
  the array in bytes, eight for each pointer.
\<close>

definition trapnames :: "string list" where
  "trapnames = [''#DE'', ''#DB'', ''NMI'', ''#BP'', ''#OF'', ''#BR'', ''#UD'', ''#NM'', ''#DF'', ''?'',
                ''#TS'', ''#NP'', ''#SS'', ''#GP'', ''#PF'', ''?'', ''#MF'', ''#AC'', ''#MC'', ''#XM'', ''#VE'']"

definition sizeof_trapnames :: nat where
  "sizeof_trapnames = 8 * length trapnames"

text \<open>
  \<^verbatim>\<open>void printtrap(struct trapframe *tf, bool lock)\<close>, as \<^verbatim>\<open>kerneltrap\<close> calls it (\<^verbatim>\<open>lock\<close> is
  false). The name of the trap is \<^verbatim>\<open>trapnames[tf->trapno]\<close> if
  \<^verbatim>\<open>tf->trapno < sizeof(trapnames)\<close> and \<^verbatim>\<open>"?"\<close> otherwise: the test compares with the size
  in bytes, so for the vectors from 21 to 167 the code reads the array beyond its last
  entry, which has no defined behaviour. Then comes the register dump, the decoding of a
  page fault, and the warning about the stack when \<^verbatim>\<open>tf->rsp\<close> is below the kernel stack of
  the process.
\<close>

definition printtrap :: "kconsts \<Rightarrow> kstate \<Rightarrow> step" where
  "printtrap K s =
     (let tf = frame s;
          vec = unat (trapno tf);
          stack = (case proc s of None \<Rightarrow> 0 | Some p \<Rightarrow> kstack p)
      in if vec < sizeof_trapnames \<and> \<not> vec < length trapnames then Inl (Undefined, s)
         else
           and_then
             (print_event (Printtrap (if vec < sizeof_trapnames then trapnames ! vec else ''?'')) s)
             (\<lambda>a. and_then
                (if vec = T_PGFLT K then print_event (Cprintf ''  page fault'') a else Inr a)
                (\<lambda>b. if stack \<noteq> 0 \<and> rsp tf < stack
                     then print_event (Cprintf ''  possible stack overflow'') b else Inr b)))"

text \<open>
  \<^verbatim>\<open>void __noret__ kerneltrap(struct trapframe *tf)\<close>: interrupts off, the console lock
  tried for a bounded time, then \<^verbatim>\<open>"kernel "\<close>, the register dump of \<^verbatim>\<open>printtrap\<close>, the
  backtrace of \<^verbatim>\<open>printtrace\<close>, the last branch when the debug-control MSR has bit 0 set,
  \<^verbatim>\<open>panicked = 1\<close> and \<^verbatim>\<open>halt()\<close>. It never returns; the result is how it ends and the state
  it ends in.
\<close>

definition kerneltrap :: "kconsts \<Rightarrow> env \<Rightarrow> kstate \<Rightarrow> outcome \<times> kstate" where
  "kerneltrap K E s =
     (let s1 = s\<lparr>cpu := cli (cpu s)\<rparr>;
          s2 = emit Tryacquire_cons_lock s1
      in case and_then (print_event (Cprintf ''kernel '') s2)
                (\<lambda>a. and_then (printtrap K a)
                   (\<lambda>b. and_then (printtrace E (rbp (frame b)) b)
                      (\<lambda>c. if debugctl E AND 1 \<noteq> 0
                           then print_event (Cprintf ''Last branch before exception'') c
                           else Inr c))) of
           Inl stop \<Rightarrow> stop
         | Inr s6 \<Rightarrow> (Halted, emit Halt (s6\<lparr>panicked := True\<rparr>)))"

subsection \<open>Emulation of popcnt\<close>

text \<open>
  \<^verbatim>\<open>u64* regs[16] = { &tf->rax, &tf->rcx, &tf->rdx, &tf->rbx, &tf->rsp, &tf->rbp, &tf->rsi,\<close>
  \<^verbatim>\<open>&tf->rdi, &tf->r8, ..., &tf->r15 };\<close>
  A pointer of this array is a register slot of the frame and an offset in 64-bit words:
  \<open>(r, 0)\<close> points at register \<open>r\<close>, \<open>(r, k)\<close> with \<open>k > 0\<close> at the memory \<open>k\<close> words
  behind it.
\<close>

type_synonym regptr = "nat \<times> nat"

definition regs_init :: "regptr list" where
  "regs_init = map (\<lambda>r. (r, 0)) [0..<16]"

definition get_reg :: "nat \<Rightarrow> trapframe \<Rightarrow> u64" where
  "get_reg r tf =
     (if r = 0 then rax tf else if r = 1 then rcx tf else if r = 2 then rdx tf
      else if r = 3 then rbx tf else if r = 4 then rsp tf else if r = 5 then rbp tf
      else if r = 6 then rsi tf else if r = 7 then rdi tf else if r = 8 then r8 tf
      else if r = 9 then r9 tf else if r = 10 then r10 tf else if r = 11 then r11 tf
      else if r = 12 then r12 tf else if r = 13 then r13 tf else if r = 14 then r14 tf
      else r15 tf)"

definition set_reg :: "nat \<Rightarrow> u64 \<Rightarrow> trapframe \<Rightarrow> trapframe" where
  "set_reg r v tf =
     (if r = 0 then tf\<lparr>rax := v\<rparr> else if r = 1 then tf\<lparr>rcx := v\<rparr>
      else if r = 2 then tf\<lparr>rdx := v\<rparr> else if r = 3 then tf\<lparr>rbx := v\<rparr>
      else if r = 4 then tf\<lparr>rsp := v\<rparr> else if r = 5 then tf\<lparr>rbp := v\<rparr>
      else if r = 6 then tf\<lparr>rsi := v\<rparr> else if r = 7 then tf\<lparr>rdi := v\<rparr>
      else if r = 8 then tf\<lparr>r8 := v\<rparr> else if r = 9 then tf\<lparr>r9 := v\<rparr>
      else if r = 10 then tf\<lparr>r10 := v\<rparr> else if r = 11 then tf\<lparr>r11 := v\<rparr>
      else if r = 12 then tf\<lparr>r12 := v\<rparr> else if r = 13 then tf\<lparr>r13 := v\<rparr>
      else if r = 14 then tf\<lparr>r14 := v\<rparr> else tf\<lparr>r15 := v\<rparr>)"

text \<open>Reading and writing through a pointer of the array.\<close>

definition deref :: "env \<Rightarrow> trapframe \<Rightarrow> regptr \<Rightarrow> u64" where
  "deref E tf p = (if snd p = 0 then get_reg (fst p) tf else beyond E (fst p) (snd p))"

text \<open>
  \<^verbatim>\<open>for(int i = 0; i < 64; i++) if(*regs[reg] & (1ul << i)) regs[rm]++;\<close>
  The increment is applied to the array element \<^verbatim>\<open>regs[rm]\<close>, a pointer: it moves the
  pointer one word on and writes nothing to the frame.
\<close>

function popcnt_loop ::
  "env \<Rightarrow> trapframe \<Rightarrow> nat \<Rightarrow> nat \<Rightarrow> nat \<Rightarrow> regptr list \<Rightarrow> regptr list" where
  "popcnt_loop E tf reg rm i regs =
     (if i < 64 then
        popcnt_loop E tf reg rm (i + 1)
          (if deref E tf (regs ! reg) AND push_bit i 1 \<noteq> 0
           then regs[rm := (fst (regs ! rm), snd (regs ! rm) + 1)]
           else regs)
      else regs)"
  by pat_completeness auto
termination
  by (relation "measure (\<lambda>(E, tf, reg, rm, i, regs). 64 - i)") auto

declare popcnt_loop.simps [simp del]

text \<open>
  The body of \<^verbatim>\<open>if ((instr & 0xc0fffff0ff) == 0xc0b80f40f3)\<close>: the two register numbers
  from the instruction bytes, \<^verbatim>\<open>*regs[rm] = 0\<close>, the loop, \<^verbatim>\<open>tf->rip += 5\<close>. The result also
  gives the pointer array after the loop.
\<close>

definition popcnt_reg :: "u64 \<Rightarrow> nat" where
  "popcnt_reg instr = unat ((drop_bit 32 instr AND 7) OR push_bit 3 (drop_bit 8 instr AND 1))"

definition popcnt_rm :: "u64 \<Rightarrow> nat" where
  "popcnt_rm instr = unat ((drop_bit 35 instr AND 7) OR push_bit 3 (drop_bit 9 instr AND 1))"

definition emulate_popcnt :: "env \<Rightarrow> u64 \<Rightarrow> trapframe \<Rightarrow> trapframe \<times> regptr list" where
  "emulate_popcnt E instr tf =
     (let reg = popcnt_reg instr;
          rm = popcnt_rm instr;
          tf1 = set_reg (fst (regs_init ! rm)) 0 tf;
          regs = popcnt_loop E tf1 reg rm 0 regs_init
      in (tf1\<lparr>rip := rip tf1 + 5\<rparr>, regs))"

subsection \<open>The dispatcher\<close>

text \<open>
  \<^verbatim>\<open>void ensure_secrets()\<close>. \<^verbatim>\<open>switch_to_kstack\<close> is assembly that is not among the sources
  and appears as an event. A panic of \<^verbatim>\<open>popcli\<close> gives \<open>None\<close>.
\<close>

definition ensure_secrets :: "env \<Rightarrow> kstate \<Rightarrow> kstate option" where
  "ensure_secrets E s =
     (let s1 = s\<lparr>cpu := pushcli (cpu s)\<rparr>;
          had_secrets = secrets_mapped s1;
          s2 = emit Switch_to_kstack s1
      in case popcli (cpu s2) of
           Inl p \<Rightarrow> None
         | Inr c \<Rightarrow>
             (let s3 = s2\<lparr>cpu := c\<rparr>;
                  s4 = (if track_wbs E \<and> \<not> had_secrets
                        then emit (Wb_increment ''intentional_wb_rips'' (return_address E - 1)) s3 else s3)
              in Some (case proc s4 of
                         None \<Rightarrow> s4
                       | Some p \<Rightarrow>
                           if \<not> had_secrets
                           then s4\<lparr>proc := Some (p\<lparr>intentional_barriers := intentional_barriers p + 1\<rparr>)\<rparr>
                           else s4)))"

text \<open>
  The end of the \<^verbatim>\<open>default\<close> case, reached when no handler took the trap:
  \<^verbatim>\<open>if (myproc() == 0 || (tf->cs&3) == 0) kerneltrap(tf); else { uerr.println(...);\<close>
  \<^verbatim>\<open>myproc()->killed = 1; }\<close>. The process is marked only after the print has come back.
\<close>

definition unexpected_trap :: "kconsts \<Rightarrow> env \<Rightarrow> kstate \<Rightarrow> flow \<times> kstate" where
  "unexpected_trap K E s =
     (case proc s of
        None \<Rightarrow> stopped (kerneltrap K E s)
      | Some p \<Rightarrow>
          if cs (frame s) AND 3 = 0 then stopped (kerneltrap K E s)
          else (case print_event (Uerr_println ''--kill proc'') s of
                  Inl stop \<Rightarrow> stopped stop
                | Inr s1 \<Rightarrow> (Break, s1\<lparr>proc := Some (p\<lparr>killed := True\<rparr>)\<rparr>)))"

text \<open>
  \<^verbatim>\<open>for (auto h = irq_info[...].handlers; h; h = h->next) h->handle_irq();\<close>
\<close>

fun run_handlers :: "nat list \<Rightarrow> kstate \<Rightarrow> kstate" where
  "run_handlers [] s = s"
| "run_handlers (h # hs) s = run_handlers hs (emit (Handle_irq h) s)"

text \<open>
  The last \<^verbatim>\<open>else if\<close> of the \<^verbatim>\<open>default\<close> case and what follows it. A \<^verbatim>\<open>panic\<close> in
  \<^verbatim>\<open>ensure_secrets\<close> starts with a print, so it halts a kernel that had not panicked and
  spins on one that had.
\<close>

definition registered_or_unexpected :: "kconsts \<Rightarrow> env \<Rightarrow> kstate \<Rightarrow> flow \<times> kstate" where
  "registered_or_unexpected K E s =
     (let vec = unat (trapno (frame s)) in
      case (if vec < 256 then registered_trap_handlers s vec else None) of
        Some h \<Rightarrow>
          (case ensure_secrets E s of
             None \<Rightarrow> (Stop (if panicked s then Frozen else Halted), s)
           | Some s1 \<Rightarrow> (Return, emit (Registered_trap_handler h) s1))
      | None \<Rightarrow> unexpected_trap K E s)"

text \<open>The \<^verbatim>\<open>default\<close> case of the \<^verbatim>\<open>switch\<close>, branch by branch.\<close>

definition trap_default :: "kconsts \<Rightarrow> env \<Rightarrow> bool \<Rightarrow> kstate \<Rightarrow> flow \<times> kstate" where
  "trap_default K E had_secrets s =
     (let tf = frame s; vec = unat (trapno tf) in
      if vec = T_ILLOP K \<and> cs tf AND 3 = 0 \<and> KTEXT K \<le> rip tf \<and> rip tf < KTEXTEND K then
        (let instr = mem_u64 E (rip tf) in
         if instr AND 0xc0fffff0ff = 0xc0b80f40f3
         then (Return, s\<lparr>frame := fst (emulate_popcnt E instr tf)\<rparr>)
         else unexpected_trap K E s)
      else if vec = T_ILLOP K \<and> cs tf AND 3 = 3 then
        (let instr = mem_u64 E (rip tf) in
         if instr AND 0xffff = 0x0b0f
         then (let s1 = record_entry_time s
               in (Return, s1\<lparr>frame := (frame s1)\<lparr>rip := rip (frame s1) + 2\<rparr>\<rparr>))
         else unexpected_trap K E s)
      else if T_IRQ0 K \<le> vec \<and> \<not> vec - T_IRQ0 K < length (irq_tab s) then (Stop Undefined, s)
      else if T_IRQ0 K \<le> vec \<and> handlers (irq_tab s ! (vec - T_IRQ0 K)) \<noteq> [] then
        (let s1 = run_handlers (handlers (irq_tab s ! (vec - T_IRQ0 K))) s;
             s2 = emit Lapiceoi s1
         in (Return, emit Piceoi s2))
      else if vec = T_PGFLT K then
        (case do_pagefault K E had_secrets s of
           (None, s1) \<Rightarrow> (Stop Undefined, s1)
         | (Some r, s1) \<Rightarrow>
             if r = 0 then
               (case proc s1 of
                  None \<Rightarrow> (Stop Undefined, s1)
                | Some p \<Rightarrow>
                    if killed p then (Stop Exited, emit (Procexit (- 1)) s1) else (Return, s1))
             else registered_or_unexpected K E s1)
      else registered_or_unexpected K E s)"

text \<open>
  The case \<^verbatim>\<open>T_IRQ0 + IRQ_TIMER\<close>. The prints asked for by \<^verbatim>\<open>timer_printpc\<close> come before
  everything else but the tick statistic.
\<close>

definition timer_prints :: "kconsts \<Rightarrow> env \<Rightarrow> kstate \<Rightarrow> step" where
  "timer_prints K E s =
     (if timer_printpc (cpu s) \<noteq> 0 then
        and_then (print_event (Cprintf ''cpu: proc rip rsp cs'') s)
          (\<lambda>a. and_then
             (if timer_printpc (cpu a) = 2 \<and> KBASE K < rbp (frame a)
              then print_pcs E (rbp (frame a)) ''cpu:   pc'' 0 10
                     (emit (Getcallerpcs (rbp (frame a))) a)
              else Inr a)
             (\<lambda>b. Inr (b\<lparr>cpu := (cpu b)\<lparr>timer_printpc := 0\<rparr>\<rparr>)))
      else Inr s)"

definition trap_timer :: "kconsts \<Rightarrow> env \<Rightarrow> kstate \<Rightarrow> flow \<times> kstate" where
  "trap_timer K E s =
     (let s1 = emit (Kstats_inc ''sched_tick_count'') s in
      case timer_prints K E s1 of
        Inl stop \<Rightarrow> stopped stop
      | Inr s2 \<Rightarrow>
          (let s3 = (if cpu_id (cpu s2) = 0 then
                       (let a = emit Timerintr s2 in
                        if ENTRY_COUNT a \<noteq> 0xffffffff then
                          (let b = record_entry_time a in
                           if ENTRY_COUNT b = 100
                           then b\<lparr>frame := (frame b)\<lparr>rip := 0x100f\<rparr>\<rparr> else b)
                        else a)
                     else s2);
               s4 = emit Refcache_tick s3;
               s5 = emit Lapiceoi s4
           in if no_sched_count (cpu s5) \<noteq> 0 then
                (let s6 = emit (Kstats_inc ''sched_blocked_tick_count'') s5
                 in (Return,
                     s6\<lparr>cpu := (cpu s6)\<lparr>no_sched_count :=
                            no_sched_count (cpu s6) OR NO_SCHED_COUNT_YIELD_REQUESTED K\<rparr>\<rparr>))
              else (Break, s5)))"

text \<open>
  The \<^verbatim>\<open>switch(tf->trapno)\<close>: the labels are tried in the order of the source, which is
  what the \<^verbatim>\<open>switch\<close> does when they are pairwise different. The spurious case and the
  case of the LAPIC error start with a \<^verbatim>\<open>cprintf\<close>.
\<close>

definition trap_switch :: "kconsts \<Rightarrow> env \<Rightarrow> bool \<Rightarrow> kstate \<Rightarrow> flow \<times> kstate" where
  "trap_switch K E had_secrets s =
     (let vec = unat (trapno (frame s)) in
      if vec = T_IRQ0 K + IRQ_TIMER K then trap_timer K E s
      else if vec = T_IRQ0 K + IRQ_IDE K then
        (Break, emit Piceoi (emit Lapiceoi (emit Ideintr s)))
      else if vec = T_IRQ0 K + IRQ_IDE K + 1 then (Break, s)
      else if vec = T_IRQ0 K + IRQ_KBD K then
        (Break, emit Piceoi (emit Lapiceoi (emit Kbdintr s)))
      else if vec = T_IRQ0 K + IRQ_MOUSE K then
        (Break, emit Piceoi (emit Lapiceoi (emit Mouseintr s)))
      else if vec = T_IRQ0 K + IRQ_COM2 K \<or> vec = T_IRQ0 K + IRQ_COM1 K then
        (Break, emit Piceoi (emit Lapiceoi (emit Uartintr s)))
      else if vec = T_IRQ0 K + 7 \<or> vec = T_IRQ0 K + IRQ_SPURIOUS K then
        (case print_event (Cprintf ''spurious interrupt'') s of
           Inl stop \<Rightarrow> stopped stop
         | Inr s1 \<Rightarrow> (Break, s1))
      else if vec = T_IRQ0 K + IRQ_ERROR K then
        (case print_event (Cprintf ''lapic error?'') s of
           Inl stop \<Rightarrow> stopped stop
         | Inr s1 \<Rightarrow> (Break, emit Lapiceoi s1))
      else if vec = T_TLBFLUSH K then (Break, emit Tlb_shootdown_on_ipi (emit Lapiceoi s))
      else if vec = T_SAMPCONF K then (Break, emit Sampconf (emit Lapiceoi s))
      else if vec = T_PAUSE K then (Break, emit Pause_cpu (emit Lapiceoi s))
      else if vec = T_IPICALL K then (Break, emit On_ipicall (emit Lapiceoi s))
      else if vec = T_WAKE_CORE K then (Break, emit Lapiceoi s)
      else trap_default K E had_secrets s)"

text \<open>
  \<^verbatim>\<open>yield()\<close> (proc.cc, not among the sources): an event that records the value of
  \<^verbatim>\<open>no_sched_count\<close> at the call, and whatever happened to the process while it was off the
  processor.
\<close>

definition yield :: "env \<Rightarrow> kstate \<Rightarrow> kstate" where
  "yield E s =
     (let s1 = emit (Yield (no_sched_count (cpu s))) s
      in s1\<lparr>proc := map_option (after_yield E) (proc s1)\<rparr>)"

definition is_yield :: "event \<Rightarrow> bool" where
  "is_yield e = (case e of Yield c \<Rightarrow> True | _ \<Rightarrow> False)"

text \<open>
  The three statements after the \<^verbatim>\<open>switch\<close>; \<open>epilogue_events c\<close> lists what they can add to
  the events when the counter is \<open>c\<close>: nothing, the exit, the yield, or the yield and then
  the exit.
\<close>

definition killed_in_user :: "kstate \<Rightarrow> bool" where
  "killed_in_user s =
     (case proc s of None \<Rightarrow> False | Some p \<Rightarrow> killed p \<and> cs (frame s) AND 3 = 3)"

definition epilogue_events :: "u64 \<Rightarrow> event list list" where
  "epilogue_events c = [[], [Procexit (- 1)], [Yield c], [Yield c, Procexit (- 1)]]"

definition after_switch :: "kconsts \<Rightarrow> env \<Rightarrow> kstate \<Rightarrow> outcome \<times> kstate" where
  "after_switch K E s =
     (if killed_in_user s then (Exited, emit (Procexit (- 1)) s)
      else let s1 = (case proc s of
                       None \<Rightarrow> s
                     | Some p \<Rightarrow>
                         if proc_state p = RUNNING
                            \<and> (unat (trapno (frame s)) = T_IRQ0 K + IRQ_TIMER K \<or> proc_yield p)
                         then yield E s else s)
           in if killed_in_user s1 then (Exited, emit (Procexit (- 1)) s1) else (Returned, s1))"

text \<open>\<^verbatim>\<open>static void trap(struct trapframe *tf, bool had_secrets)\<close>\<close>

definition trap :: "kconsts \<Rightarrow> env \<Rightarrow> bool \<Rightarrow> kstate \<Rightarrow> outcome \<times> kstate" where
  "trap K E had_secrets s =
     (case trap_switch K E had_secrets s of
        (Break, s1) \<Rightarrow> after_switch K E s1
      | (Return, s1) \<Rightarrow> (Returned, s1)
      | (Stop out, s1) \<Rightarrow> (out, s1))"

section \<open>Concrete inputs\<close>

text \<open>
  A trap frame with the given vector, code-segment selector and error code; a running
  process; a state with the registry as \<^verbatim>\<open>inittrap\<close> finds it, no registered trap handler
  and interrupts off, as the interrupt gate leaves them; and a world in which the fault
  resolver fails and the signal is refused.
\<close>

definition frame0 :: "u64 \<Rightarrow> 16 word \<Rightarrow> u32 \<Rightarrow> trapframe" where
  "frame0 vec sel ec =
     \<lparr>rax = 0, rcx = 0, rdx = 0, rbx = 0, rsp = 0, rbp = 0, rsi = 0, rdi = 0, r8 = 0, r9 = 0,
      r10 = 0, r11 = 0, r12 = 0, r13 = 0, r14 = 0, r15 = 0, rip = 4096, rflags = 0,
      trapno = vec, err = ec, cs = sel, ss = 0, padding3_0 = 0, padding3_1 = 0\<rparr>"

definition proc0 :: proc where
  "proc0 = \<lparr>killed = False, proc_yield = False, proc_uaccess = False, proc_state = RUNNING,
             transparent_barriers = 0, intentional_barriers = 0, kstack = 0\<rparr>"

definition kstate0 :: "trapframe \<Rightarrow> proc option \<Rightarrow> kstate" where
  "kstate0 tf p =
     \<lparr>frame = tf, cpu = cpu0\<lparr>rflags_IF := False\<rparr>, proc = p, irq_tab = irq_info_init K0,
      registered_trap_handlers = (\<lambda>v. None), secrets_mapped = True,
      ENTRY_COUNT = 0xffffffff, ENTRY_TIMES = (\<lambda>i. 0), panicked = False, trace = []\<rparr>"

definition env0 :: "u64 \<Rightarrow> env" where
  "env0 addr =
     \<lparr>rcr2 = addr, pagefault = (\<lambda>a e. - 1), deliver_signal = (\<lambda>sig. False),
      mem_u64 = (\<lambda>a. 0), beyond = (\<lambda>r k. 0), callerpcs = (\<lambda>bp i. 0), track_wbs = False,
      debugctl = 0, return_address = 0, after_yield = (\<lambda>p. p)\<rparr>"

text \<open>
  An illegal-instruction trap in kernel text on the bytes \<^verbatim>\<open>f3 48 0f b8 c1\<close>
  (\<^verbatim>\<open>popcnt %rcx, %rax\<close>), with eight bits set in \<^verbatim>\<open>rcx\<close>; and the number of set bits of a
  64-bit value, which is what the instruction computes.
\<close>

definition popcnt_frame :: trapframe where
  "popcnt_frame = (frame0 6 0 0)\<lparr>rip := 0xFFFFFFFFC0001000, rcx := 0xff, rax := 0x1234\<rparr>"

definition popcnt_env :: env where
  "popcnt_env = (env0 0)\<lparr>mem_u64 := (\<lambda>a. 0xc1b80f48f3)\<rparr>"

definition popcount :: "u64 \<Rightarrow> nat" where
  "popcount w = length (filter (bit w) [0..<64])"

section \<open>Scheduler-suppressed scopes (kernel/trap.cc)\<close>

text \<open>
  Modelled from the spec: \<^verbatim>\<open>modify_no_sched_count\<close>, which \<^verbatim>\<open>release_yield\<close> calls, is declared
  in a header that is not among the sources. The spec calls \<^verbatim>\<open>no_sched_count\<close> the
  per-core scheduler-suppression counter; the function adds its argument to that counter.
\<close>

definition modify_no_sched_count :: "u64 \<Rightarrow> kstate \<Rightarrow> kstate" where
  "modify_no_sched_count delta s =
     s\<lparr>cpu := (cpu s)\<lparr>no_sched_count := no_sched_count (cpu s) + delta\<rparr>\<rparr>"

text \<open>
  \<^verbatim>\<open>void scoped_critical::release_yield()\<close>: the statistic, then
  \<^verbatim>\<open>modify_no_sched_count(-NO_SCHED_COUNT_YIELD_REQUESTED)\<close>, then \<^verbatim>\<open>yield()\<close>.
\<close>

definition release_yield :: "kconsts \<Rightarrow> env \<Rightarrow> kstate \<Rightarrow> kstate" where
  "release_yield K E s =
     (let s1 = emit (Kstats_inc ''sched_delayed_tick_count'') s;
          s2 = modify_no_sched_count (- NO_SCHED_COUNT_YIELD_REQUESTED K) s1
      in yield E s2)"

text \<open>
  Modelled from the spec: the entry of a scheduler-suppressed scope (the constructor of
  class \<^verbatim>\<open>scoped_critical\<close>, declared in a header that is not among the sources). The
  spec says that the scopes nest and are counted by the per-core counter: entering adds
  one to it.
\<close>

definition scoped_enter :: "kstate \<Rightarrow> kstate" where
  "scoped_enter s = modify_no_sched_count 1 s"

text \<open>
  Modelled from the spec: the exit of a scheduler-suppressed scope (the release of class
  \<^verbatim>\<open>scoped_critical\<close>, declared in a header that is not among the sources; only its
  \<^verbatim>\<open>release_yield\<close> is in trap.cc). The spec says that a yield deferred inside a scope "is
  honored exactly once, immediately after the outermost scope exits". Leaving subtracts
  one from the counter; if what remains is exactly the yield request, this was the
  outermost scope and a yield is owed, and \<^verbatim>\<open>release_yield\<close> runs.
\<close>

definition scoped_release :: "kconsts \<Rightarrow> env \<Rightarrow> kstate \<Rightarrow> kstate" where
  "scoped_release K E s =
     (let s1 = modify_no_sched_count (- 1) s
      in if no_sched_count (cpu s1) = NO_SCHED_COUNT_YIELD_REQUESTED K
         then release_yield K E s1 else s1)"

text \<open>
  What happens on one core: a scope is entered, a scope is left, or a timer interrupt
  arrives and \<^verbatim>\<open>trap\<close> runs on the frame of the state. The run goes on after a trap that
  returns.
\<close>

datatype crit_op = Enter | Leave | Tick

fun run_crit :: "kconsts \<Rightarrow> env \<Rightarrow> crit_op list \<Rightarrow> kstate \<Rightarrow> kstate option" where
  "run_crit K E [] s = Some s"
| "run_crit K E (Enter # os) s = run_crit K E os (scoped_enter s)"
| "run_crit K E (Leave # os) s = run_crit K E os (scoped_release K E s)"
| "run_crit K E (Tick # os) s =
     (case trap K E False s of
        (Returned, s') \<Rightarrow> run_crit K E os s'
      | (Exited, s') \<Rightarrow> None
      | (Halted, s') \<Rightarrow> None
      | (Frozen, s') \<Rightarrow> None
      | (Undefined, s') \<Rightarrow> None)"

text \<open>
  \<open>inner d os\<close> is the number of open scopes after \<open>os\<close>, starting with \<open>d\<close>, if \<open>os\<close>
  never leaves the last open scope; \<open>deepest d os\<close> is the largest number of open scopes
  on the way.
\<close>

fun inner :: "nat \<Rightarrow> crit_op list \<Rightarrow> nat option" where
  "inner d [] = Some d"
| "inner d (Enter # os) = inner (Suc d) os"
| "inner d (Tick # os) = inner d os"
| "inner d (Leave # os) = (if d \<le> 1 then None else inner (d - 1) os)"

fun deepest :: "nat \<Rightarrow> crit_op list \<Rightarrow> nat" where
  "deepest d [] = d"
| "deepest d (Enter # os) = max d (deepest (Suc d) os)"
| "deepest d (Tick # os) = deepest d os"
| "deepest d (Leave # os) = max d (deepest (d - 1) os)"

text \<open>
  The invariant inside a scope: with \<open>d\<close> scopes open, the counter is \<open>d\<close>, plus the yield
  request \<open>2 ^ k\<close> once a tick has arrived (\<open>f\<close>); the frame is still a timer frame; the
  kernel has not panicked; and since the trace \<open>tr\<close> nothing has yielded.
\<close>

definition crit_inv :: "kconsts \<Rightarrow> nat \<Rightarrow> event list \<Rightarrow> nat \<Rightarrow> bool \<Rightarrow> kstate \<Rightarrow> bool" where
  "crit_inv K k tr d f s =
     (no_sched_count (cpu s) = of_nat d + (if f then 2 ^ k else 0)
      \<and> unat (trapno (frame s)) = T_IRQ0 K + IRQ_TIMER K
      \<and> \<not> panicked s
      \<and> take (length tr) (trace s) = tr
      \<and> filter is_yield (drop (length tr) (trace s)) = [])"

section \<open>Properties of the descriptor\<close>

text \<open>
  Claim C9. For every descriptor \<open>d\<close>, the duplicate \<open>dup d\<close> has the flag word of \<open>d\<close>
  with the lock bit cleared: bit \<open>n\<close> of the duplicate's flags is set exactly when \<open>n\<close> is
  not the lock bit and bit \<open>n\<close> of \<open>d\<close>'s flags is set. The duplicate refers to the same
  backing page and the same pageable, and has the same start offset.
\<close>

theorem dup_keeps_all_but_lock:
  "bit (flags (dup d)) n = (n \<noteq> FLAG_LOCK_BIT \<and> bit (flags d) n)
   \<and> flags (dup d) = flags d AND NOT FLAG_LOCK
   \<and> flags (dup d) AND FLAG_LOCK = 0
   \<and> page_ptr (page (dup d)) = page_ptr (page d)
   \<and> inode (dup d) = inode d
   \<and> start (dup d) = start d"
proof -
  have b: "bit (flags d AND NOT FLAG_LOCK) n = (n \<noteq> FLAG_LOCK_BIT \<and> bit (flags d) n)"
    by (auto simp: FLAG_LOCK_def FLAG_LOCK_BIT_def bit_and_iff bit_not_iff bit_1_iff
          dest: bit_imp_le_length)
  have z: "(flags d AND NOT FLAG_LOCK) AND FLAG_LOCK = 0"
    by (simp add: and.assoc)
  show ?thesis
    using b z by (simp add: dup_def page_info_ref_copy_def)
qed
section \<open>Interrupt-disable nesting\<close>

lemma max_nesting_ge: "d \<le> max_nesting d ops"
  by (induction d ops rule: max_nesting.induct) auto

lemma pushcli_inv:
  assumes "cli_inv b d c" "Suc d < 2 ^ 31"
  shows "cli_inv b (Suc d) (pushcli c)"
proof -
  from assms have u: "unat (ncli c) = d" by (simp add: cli_inv_def)
  with assms(2) have s: "unat (ncli c + 1) = Suc d"
    by (simp add: unat_word_ariths)
  have z: "(ncli c = 0) = (d = 0)"
    using u by (auto simp: unat_eq_0)
  show ?thesis
    using assms(1) s z by (auto simp: cli_inv_def pushcli_def cli_def Let_def)
qed

lemma popcli_inv:
  assumes "cli_inv b (Suc d) c" "Suc d < 2 ^ 31"
  shows "\<exists>c'. popcli c = Inr c' \<and> cli_inv b d c'"
proof -
  from assms have u: "unat (ncli c) = Suc d" and i: "\<not> rflags_IF c" and e: "intena c = b"
    by (simp_all add: cli_inv_def)
  have s: "unat (ncli c - 1) = d"
    using u by (simp add: unat_minus_one unat_eq_0 [symmetric])
  have z: "(ncli c - 1 = 0) = (d = 0)"
    using s by (auto simp: unat_eq_0)
  have n: "\<not> ncli c - 1 <s 0"
  proof -
    have "uint (ncli c - 1) = int d"
      using s by (simp add: uint_nat)
    moreover have "d < 2 ^ 31"
      using assms(2) by (rule Suc_lessD)
    then have "int d < 2 ^ 31"
      by simp
    ultimately have "sint (ncli c - 1) = int d"
      by (simp add: sint_uint signed_take_bit_int_eq_self)
    then show ?thesis by (simp add: word_sless_alt)
  qed
  show ?thesis
    using i e s z n by (auto simp: popcli_def sti_def Let_def cli_inv_def)
qed

lemma run_cli_inv:
  "cli_inv b d c \<Longrightarrow> nesting d ops = Some d' \<Longrightarrow> max_nesting d ops < 2 ^ 31 \<Longrightarrow>
   \<exists>c'. run_cli ops c = Inr c' \<and> cli_inv b d' c'"
proof (induction d ops arbitrary: c rule: nesting.induct)
  case (1 d)
  then show ?case by simp
next
  case (2 d ops)
  have "Suc d \<le> max_nesting (Suc d) ops" by (rule max_nesting_ge)
  with 2 have "cli_inv b (Suc d) (pushcli c)"
    by (intro pushcli_inv) auto
  with 2 show ?case by simp
next
  case (3 d ops)
  show ?case
  proof (cases d)
    case 0
    with 3 show ?thesis by simp
  next
    case (Suc e)
    with 3 obtain c1 where "popcli c = Inr c1" "cli_inv b e c1"
      using popcli_inv [of b e c] by auto
    with 3 Suc show ?thesis by simp
  qed
qed

lemma nesting_take:
  "nesting d ops = Some e \<Longrightarrow> \<exists>e'. nesting d (take k ops) = Some e'"
proof (induction d ops arbitrary: k rule: nesting.induct)
  case (1 d)
  then show ?case by simp
next
  case (2 d ops)
  then show ?case by (cases k) auto
next
  case (3 d ops)
  then show ?case by (cases k; cases d) auto
qed

lemma max_nesting_take: "max_nesting d (take k ops) \<le> max_nesting d ops"
proof (induction d ops arbitrary: k rule: max_nesting.induct)
  case (1 d)
  then show ?case by simp
next
  case (2 d ops)
  show ?case
  proof (cases k)
    case 0
    then show ?thesis by simp
  next
    case (Suc j)
    with 2 [of j] show ?thesis by (auto simp: max_def)
  qed
next
  case (3 d ops)
  show ?case
  proof (cases k)
    case 0
    then show ?thesis by simp
  next
    case (Suc j)
    with 3 [of j] show ?thesis by (auto simp: max_def)
  qed
qed

text \<open>
  Claim C6. Take a core with no open \<^verbatim>\<open>pushcli\<close> (\<open>ncli = 0\<close>) and a matched sequence of
  \<^verbatim>\<open>pushcli\<close>/\<^verbatim>\<open>popcli\<close> calls whose nesting stays below \<open>2^31\<close> (the range of the
  \<^verbatim>\<open>int\<close> counter). After any number \<open>k\<close> of the calls no panic has happened, \<open>ncli\<close> is
  the number \<open>d\<close> of scopes still open, and interrupts are enabled exactly when \<open>d = 0\<close>
  and they were enabled before the first call. So no inner \<^verbatim>\<open>popcli\<close> enables
  interrupts, the outermost one enables them only if they were on at the outermost
  \<^verbatim>\<open>pushcli\<close>, and if they were off the sequence leaves them off.
\<close>

theorem pushcli_popcli_matched:
  assumes "ncli c = 0" and "matched ops" and "max_nesting 0 ops < 2 ^ 31"
  shows "\<exists>c' d. run_cli (take k ops) c = Inr c' \<and> nesting 0 (take k ops) = Some d \<and>
           unat (ncli c') = d \<and> rflags_IF c' = (d = 0 \<and> rflags_IF c)"
proof -
  from assms(2) obtain d where d: "nesting 0 (take k ops) = Some d"
    using nesting_take [of 0 ops 0 k] by (auto simp: matched_def)
  have m: "max_nesting 0 (take k ops) < 2 ^ 31"
    using max_nesting_take [of 0 k ops] assms(3) by simp
  have "cli_inv (rflags_IF c) 0 c"
    using assms(1) by (simp add: cli_inv_def)
  from run_cli_inv [OF this d m] obtain c' where
    "run_cli (take k ops) c = Inr c'" "cli_inv (rflags_IF c) d c'" by blast
  with d show ?thesis by (auto simp: cli_inv_def split: if_splits)
qed

theorem pushcli_popcli_matched_witness:
  "ncli cpu0 = 0 \<and> matched [Pushcli, Pushcli, Popcli, Popcli] \<and>
   max_nesting 0 [Pushcli, Pushcli, Popcli, Popcli] < 2 ^ 31 \<and>
   (\<exists>c'. run_cli (take 3 [Pushcli, Pushcli, Popcli, Popcli]) cpu0 = Inr c' \<and> \<not> rflags_IF c') \<and>
   (\<exists>c'. run_cli (take 4 [Pushcli, Pushcli, Popcli, Popcli]) cpu0 = Inr c' \<and> rflags_IF c')"
proof -
  have a: "ncli cpu0 = 0" by (simp add: cpu0_def)
  have b: "matched [Pushcli, Pushcli, Popcli, Popcli]" by (simp add: matched_def)
  have m: "max_nesting 0 [Pushcli, Pushcli, Popcli, Popcli] < 2 ^ 31" by simp
  have i: "rflags_IF cpu0" by (simp add: cpu0_def)
  have n3: "nesting 0 (take 3 [Pushcli, Pushcli, Popcli, Popcli]) = Some 1" by (simp add: numeral_3_eq_3)
  have n4: "nesting 0 (take 4 [Pushcli, Pushcli, Popcli, Popcli]) = Some 0" by simp
  show ?thesis
    using a b m i n3 n4
      pushcli_popcli_matched [OF a b m, of 3]
      pushcli_popcli_matched [OF a b m, of 4]
    by auto
qed
section \<open>The NMI entry path\<close>

text \<open>
  Claim C3. Write \<open>handled\<close> for the number of sources the sampler reports and \<open>credit\<close>
  for the swallow counter after the reset (the old counter when the NMI resumes at the
  address of the previous one, 0 otherwise). The entry path panics exactly when
  \<open>handled = 0\<close> and \<open>credit = 0\<close>. A repeated NMI with a positive counter does not
  panic. When the path returns, the counter is \<open>credit + (handled - 1)\<close> and the
  remembered address is this NMI's.
\<close>

theorem nmientry_c_panics_iff:
  "(let handled = fst (sampintr tf (nmi_cpu s));
        credit = (if nmi_lastpc s = nmi_rip tf then nmi_swallow s else 0);
        r = nmientry_c sampintr tf s
    in (r = Inl (Panic ''NMI'')) = (handled = 0 \<and> credit = 0)
       \<and> isl r = (handled = 0 \<and> credit = 0)
       \<and> (nmi_lastpc s = nmi_rip tf \<and> 0 <s nmi_swallow s \<longrightarrow> \<not> isl r)
       \<and> (\<forall>s'. r = Inr s' \<longrightarrow>
             nmi_swallow s' = credit + (handled - 1) \<and> nmi_lastpc s' = nmi_rip tf))"
  by (cases "sampintr tf (nmi_cpu s)")
     (auto simp: nmientry_c_def Let_def word_sless_alt)

theorem nmientry_c_panics_iff_witness:
  "nmi_lastpc (nmi_state0 4096 1) = nmi_rip nmiframe0 \<and> 0 <s nmi_swallow (nmi_state0 4096 1)
   \<and> \<not> isl (nmientry_c sampintr_none nmiframe0 (nmi_state0 4096 1))
   \<and> (\<exists>s'. nmientry_c sampintr_none nmiframe0 (nmi_state0 4096 1) = Inr s' \<and> nmi_swallow s' = 0)
   \<and> nmientry_c sampintr_none nmiframe0 (nmi_state0 4096 0) = Inl (Panic ''NMI'')
   \<and> nmientry_c sampintr_none nmiframe0 (nmi_state0 8192 1) = Inl (Panic ''NMI'')
   \<and> (\<exists>s'. nmientry_c sampintr_two nmiframe0 (nmi_state0 8192 5) = Inr s' \<and> nmi_swallow s' = 1)"
  using nmientry_c_panics_iff [of sampintr_none nmiframe0 "nmi_state0 4096 1"]
    nmientry_c_panics_iff [of sampintr_none nmiframe0 "nmi_state0 4096 0"]
    nmientry_c_panics_iff [of sampintr_none nmiframe0 "nmi_state0 8192 1"]
    nmientry_c_panics_iff [of sampintr_two nmiframe0 "nmi_state0 8192 5"]
  by (simp add: Let_def nmiframe0_def nmi_state0_def sampintr_none_def sampintr_two_def
        word_sless_alt nmientry_c_def)

section \<open>The IRQ registry\<close>

lemma mark_in_use_Some:
  assumes "mark_in_use i t = Some t'"
  shows "length t' = length t" and "in_range i t" and "in_use (t' ! nat i)"
    and "in_use (t ! j) \<Longrightarrow> j < length t \<Longrightarrow> in_use (t' ! j)"
    and "j \<noteq> nat i \<Longrightarrow> t' ! j = t ! j"
  using assms
  by (auto simp: mark_in_use_def in_range_def nth_list_update split: if_splits)

lemma in_range_nat: "in_range i xs \<Longrightarrow> nat i < length xs"
  by (simp add: in_range_def nat_less_iff)

lemma mark_in_use_total: "in_range i t \<Longrightarrow> \<exists>t'. mark_in_use i t = Some t'"
  by (simp add: mark_in_use_def)

lemma mark_from_Some:
  "0 \<le> i \<Longrightarrow> i + int n \<le> int (length t) \<Longrightarrow>
   \<exists>t'. mark_from n i t = Some t' \<and> length t' = length t
     \<and> (\<forall>j. i \<le> int j \<and> int j < i + int n \<longrightarrow> in_use (t' ! j))
     \<and> (\<forall>j < length t. in_use (t ! j) \<longrightarrow> in_use (t' ! j))"
proof (induction n arbitrary: i t)
  case 0
  then show ?case by auto
next
  case (Suc n)
  from Suc.prems have r: "in_range i t" by (simp add: in_range_def)
  then obtain t1 where t1: "mark_in_use i t = Some t1"
    using mark_in_use_total by blast
  note m = mark_in_use_Some [OF t1]
  from Suc.prems m(1) have "0 \<le> i + 1" "i + 1 + int n \<le> int (length t1)" by simp_all
  from Suc.IH [OF this] obtain t' where
    t': "mark_from n (i + 1) t1 = Some t'" "length t' = length t1"
      "\<forall>j. i + 1 \<le> int j \<and> int j < i + 1 + int n \<longrightarrow> in_use (t' ! j)"
      "\<forall>j < length t1. in_use (t1 ! j) \<longrightarrow> in_use (t' ! j)"
    by blast
  have "in_use (t' ! j)" if "i \<le> int j" "int j < i + int (Suc n)" for j
  proof (cases "int j = i")
    case True
    then have "j = nat i" by simp
    with m(3) m(2) m(1) t'(4) show ?thesis by (auto simp: in_range_def)
  next
    case False
    with that t'(3) show ?thesis by simp
  qed
  moreover have "in_use (t' ! j)" if "j < length t" "in_use (t ! j)" for j
    using that m(4) m(1) t'(4) by simp
  ultimately show ?case
    using t1 t' m(1) by simp
qed

lemma inittrap_marks:
  assumes "length t = 256 - T_IRQ0 K" and "T_IRQ0 K \<le> 240"
    and "IRQ_SPURIOUS K < 256 - T_IRQ0 K"
  shows "\<exists>t'. inittrap K t = Some t' \<and> length t' = length t
           \<and> (\<forall>i < 16. in_use (t' ! i)) \<and> in_use (t' ! IRQ_SPURIOUS K)
           \<and> in_use (t' ! (255 - T_IRQ0 K))"
proof -
  have "(0::int) \<le> 0" "0 + int 16 \<le> int (length t)" using assms by simp_all
  from mark_from_Some [OF this] obtain t1 where
    t1: "mark_from 16 0 t = Some t1" "length t1 = length t"
      "\<forall>j. 0 \<le> int j \<and> int j < 0 + int 16 \<longrightarrow> in_use (t1 ! j)"
    by blast
  have "in_range (int (IRQ_SPURIOUS K)) t1" using assms t1(2) by (simp add: in_range_def)
  then obtain t2 where t2: "mark_in_use (int (IRQ_SPURIOUS K)) t1 = Some t2"
    using mark_in_use_total by blast
  note m2 = mark_in_use_Some [OF t2]
  have "in_range (255 - int (T_IRQ0 K)) t2"
    using assms t1(2) m2(1) by (simp add: in_range_def)
  then obtain t3 where t3: "mark_in_use (255 - int (T_IRQ0 K)) t2 = Some t3"
    using mark_in_use_total by blast
  note m3 = mark_in_use_Some [OF t3]
  have n: "nat (255 - int (T_IRQ0 K)) = 255 - T_IRQ0 K" by simp
  have a: "in_use (t3 ! i)" if "i < 16" for i
  proof -
    from that t1(3) have "in_use (t1 ! i)" by simp
    moreover have "i < length t1" using that assms t1(2) by simp
    ultimately have "in_use (t2 ! i)" using m2(4) by simp
    moreover have "i < length t2" using \<open>i < length t1\<close> m2(1) by simp
    ultimately show ?thesis using m3(4) by simp
  qed
  have b: "in_use (t3 ! IRQ_SPURIOUS K)"
    using m2(3) m3(4) [of "IRQ_SPURIOUS K"] assms t1(2) m2(1) by simp
  have c: "in_use (t3 ! (255 - T_IRQ0 K))"
    using m3(3) n by simp
  show ?thesis
    using t1 t2 t3 m2(1) m3(1) a b c by (simp add: inittrap_def)
qed

lemma find_accept_Some:
  "find_accept t gs = Some g \<Longrightarrow> g \<noteq> - 1 \<Longrightarrow> in_range g t \<and> \<not> in_use (t ! nat g) \<and> g \<in> set gs"
  by (induction gs) (auto split: if_splits)

lemma find_free_Some:
  "find_free t n = g \<Longrightarrow> g \<noteq> - 1 \<Longrightarrow> 0 \<le> g \<and> g < int n \<and> \<not> in_use (t ! nat g)"
  by (induction n) (auto split: if_splits)

lemma irq_reserve_true:
  assumes "irq_reserve K v a t q = Done (True, t', q')"
  shows "in_range (gsi q') t \<and> \<not> in_use (t ! nat (gsi q')) \<and> in_use (t' ! nat (gsi q'))
         \<and> t' = t[nat (gsi q') := (t ! nat (gsi q'))\<lparr>in_use := True\<rparr>]
         \<and> vector q' = int (T_IRQ0 K) + gsi q' \<and> \<not> v"
proof -
  from assms have nv: "\<not> v" by (auto simp: irq_reserve_def split: if_splits)
  define r where "r = (case a of Some gs \<Rightarrow> find_accept t gs | None \<Rightarrow> Some (find_free t (length t)))"
  from assms nv obtain g where g: "r = Some g" "g \<noteq> - 1"
    and t': "t' = t[nat g := (t ! nat g)\<lparr>in_use := True\<rparr>]"
    and q': "q' = q\<lparr>gsi := g, vector := int (T_IRQ0 K) + g\<rparr>"
    by (auto simp: irq_reserve_def r_def split: option.splits if_splits)
  have "in_range g t \<and> \<not> in_use (t ! nat g)"
  proof (cases a)
    case None
    with g have "find_free t (length t) = g" by (simp add: r_def)
    from find_free_Some [OF this g(2)] show ?thesis by (simp add: in_range_def)
  next
    case (Some gs)
    with g have "find_accept t gs = Some g" by (simp add: r_def)
    from find_accept_Some [OF this g(2)] show ?thesis by simp
  qed
  then have r: "in_range g t" and f: "\<not> in_use (t ! nat g)" by simp_all
  from r have l: "nat g < length t" by (rule in_range_nat)
  have "in_use (t' ! nat g)" using l t' by simp
  with r f show ?thesis
    using nv t' q' by simp
qed

lemma irq_reserve_false:
  "irq_reserve K v a t q = Done (False, t', q') \<Longrightarrow> t' = t \<and> q' = q"
  by (auto simp: irq_reserve_def split: option.splits if_splits)

lemma reserve_seq_exclusive:
  "reserve_seq K rs t = Done (qs, t') \<Longrightarrow>
   length t' = length t
   \<and> (\<forall>j < length t. in_use (t ! j) \<longrightarrow> in_use (t' ! j))
   \<and> (\<forall>q \<in> set qs. in_range (gsi q) t \<and> \<not> in_use (t ! nat (gsi q)) \<and> in_use (t' ! nat (gsi q))
         \<and> vector q = int (T_IRQ0 K) + gsi q)
   \<and> distinct (map gsi qs)"
proof (induction rs arbitrary: t qs t')
  case Nil
  then show ?case by simp
next
  case (Cons r rs)
  obtain a q where r: "r = (a, q)" by (cases r)
  from Cons.prems r obtain ok t1 q1 qs1 where
    step: "irq_reserve K False a t q = Done (ok, t1, q1)"
    and rest: "reserve_seq K rs t1 = Done (qs1, t')"
    and qs: "qs = (if ok then [q1] else []) @ qs1"
    by (auto split: result.splits)
  note ih = Cons.IH [OF rest]
  show ?case
  proof (cases ok)
    case False
    with step have "irq_reserve K False a t q = Done (False, t1, q1)" by simp
    then have "t1 = t" using irq_reserve_false by blast
    with ih qs False show ?thesis by simp
  next
    case True
    with step have "irq_reserve K False a t q = Done (True, t1, q1)" by simp
    from irq_reserve_true [OF this]
    have s: "in_range (gsi q1) t" "\<not> in_use (t ! nat (gsi q1))"
      "in_use (t1 ! nat (gsi q1))" "t1 = t[nat (gsi q1) := (t ! nat (gsi q1))\<lparr>in_use := True\<rparr>]"
      "vector q1 = int (T_IRQ0 K) + gsi q1"
      by blast+
    have len: "length t1 = length t" using s(4) by simp
    have mono: "in_use (t1 ! j)" if "j < length t" "in_use (t ! j)" for j
      using that s(4) by (cases "j = nat (gsi q1)") simp_all
    have g1: "nat (gsi q1) < length t" using s(1) by (rule in_range_nat)
    have fresh: "gsi q1 \<notin> gsi ` set qs1"
    proof
      assume "gsi q1 \<in> gsi ` set qs1"
      then obtain p where "p \<in> set qs1" "gsi p = gsi q1" by auto
      with ih have "\<not> in_use (t1 ! nat (gsi q1))" by auto
      with s(3) show False by simp
    qed
    have old: "in_range (gsi p) t \<and> \<not> in_use (t ! nat (gsi p)) \<and> in_use (t' ! nat (gsi p))
        \<and> vector p = int (T_IRQ0 K) + gsi p" if "p \<in> set qs1" for p
    proof -
      from that ih have p: "in_range (gsi p) t1" "\<not> in_use (t1 ! nat (gsi p))"
        "in_use (t' ! nat (gsi p))" "vector p = int (T_IRQ0 K) + gsi p" by auto
      from p(1) len have "in_range (gsi p) t" by (simp add: in_range_def)
      moreover from this p(2) mono have "\<not> in_use (t ! nat (gsi p))"
        by (auto simp: in_range_def)
      ultimately show ?thesis using p by simp
    qed
    have new: "in_use (t' ! nat (gsi q1))"
      using ih s(3) g1 len by simp
    show ?thesis
      using True qs ih len mono s fresh old new by auto
  qed
qed

text \<open>
  Claim C10. (1) On a registry of \<open>256 - T_IRQ0\<close> lines that has room for the sixteen
  legacy lines and the spurious line, the initialisation marks lines 0 to 15, the spurious
  line and line \<open>255 - T_IRQ0\<close> (vector 255) in use. (2) A \<^verbatim>\<open>reserve\<close> that returns true
  chose a line that was free, has marked exactly that line in use, and has set the vector
  to the line plus \<open>T_IRQ0\<close>. (3) In any sequence of \<^verbatim>\<open>reserve\<close> calls after the
  initialisation, the lines of the successful calls are pairwise different, none of them
  is a line the initialisation marked, and each vector is its line plus \<open>T_IRQ0\<close>.
\<close>

theorem irq_reserve_exclusive:
  "(length t0 = 256 - T_IRQ0 K \<and> T_IRQ0 K \<le> 240 \<and> IRQ_SPURIOUS K < 256 - T_IRQ0 K \<longrightarrow>
      (\<exists>t. inittrap K t0 = Some t \<and> (\<forall>i < 16. in_use (t ! i)) \<and> in_use (t ! IRQ_SPURIOUS K)
         \<and> in_use (t ! (255 - T_IRQ0 K))))
   \<and> (irq_reserve K v a t1 q = Done (True, t2, q') \<longrightarrow>
        in_range (gsi q') t1 \<and> \<not> in_use (t1 ! nat (gsi q')) \<and> in_use (t2 ! nat (gsi q'))
        \<and> t2 = t1[nat (gsi q') := (t1 ! nat (gsi q'))\<lparr>in_use := True\<rparr>]
        \<and> vector q' = int (T_IRQ0 K) + gsi q')
   \<and> (length t0 = 256 - T_IRQ0 K \<and> T_IRQ0 K \<le> 240 \<and> IRQ_SPURIOUS K < 256 - T_IRQ0 K
        \<and> inittrap K t0 = Some t \<and> reserve_seq K rs t = Done (qs, t') \<longrightarrow>
        distinct (map gsi qs)
        \<and> (\<forall>p \<in> set qs. 16 \<le> gsi p \<and> gsi p \<noteq> int (IRQ_SPURIOUS K)
              \<and> gsi p \<noteq> 255 - int (T_IRQ0 K) \<and> gsi p < 256 - int (T_IRQ0 K)
              \<and> vector p = int (T_IRQ0 K) + gsi p))"
proof -
  have init: "\<exists>t. inittrap K t0 = Some t \<and> (\<forall>i < 16. in_use (t ! i)) \<and> in_use (t ! IRQ_SPURIOUS K)
         \<and> in_use (t ! (255 - T_IRQ0 K))"
    if "length t0 = 256 - T_IRQ0 K \<and> T_IRQ0 K \<le> 240 \<and> IRQ_SPURIOUS K < 256 - T_IRQ0 K"
    using that inittrap_marks [of t0 K] by auto
  have one: "in_range (gsi q') t1 \<and> \<not> in_use (t1 ! nat (gsi q')) \<and> in_use (t2 ! nat (gsi q'))
        \<and> t2 = t1[nat (gsi q') := (t1 ! nat (gsi q'))\<lparr>in_use := True\<rparr>]
        \<and> vector q' = int (T_IRQ0 K) + gsi q'"
    if "irq_reserve K v a t1 q = Done (True, t2, q')"
    using irq_reserve_true [OF that] by blast
  have many: "distinct (map gsi qs)
        \<and> (\<forall>p \<in> set qs. 16 \<le> gsi p \<and> gsi p \<noteq> int (IRQ_SPURIOUS K)
              \<and> gsi p \<noteq> 255 - int (T_IRQ0 K) \<and> gsi p < 256 - int (T_IRQ0 K)
              \<and> vector p = int (T_IRQ0 K) + gsi p)"
    if h: "length t0 = 256 - T_IRQ0 K \<and> T_IRQ0 K \<le> 240 \<and> IRQ_SPURIOUS K < 256 - T_IRQ0 K
        \<and> inittrap K t0 = Some t \<and> reserve_seq K rs t = Done (qs, t')"
  proof -
    from h obtain u where u: "inittrap K t0 = Some u" "length u = length t0"
        "\<forall>i < 16. in_use (u ! i)" "in_use (u ! IRQ_SPURIOUS K)" "in_use (u ! (255 - T_IRQ0 K))"
      using inittrap_marks [of t0 K] by auto
    with h have ut: "u = t" by simp
    from h have e: "length t' = length t"
        "\<forall>q \<in> set qs. in_range (gsi q) t \<and> \<not> in_use (t ! nat (gsi q)) \<and> in_use (t' ! nat (gsi q))
           \<and> vector q = int (T_IRQ0 K) + gsi q"
        "distinct (map gsi qs)"
      using reserve_seq_exclusive [of K rs t qs t'] by auto
    have "16 \<le> gsi p \<and> gsi p \<noteq> int (IRQ_SPURIOUS K)
                \<and> gsi p \<noteq> 255 - int (T_IRQ0 K) \<and> gsi p < 256 - int (T_IRQ0 K)
                \<and> vector p = int (T_IRQ0 K) + gsi p" if "p \<in> set qs" for p
    proof -
      from that e(2) have p: "in_range (gsi p) t" "\<not> in_use (t ! nat (gsi p))"
        "vector p = int (T_IRQ0 K) + gsi p" by auto
      have a: "16 \<le> gsi p"
      proof (rule ccontr)
        assume "\<not> 16 \<le> gsi p"
        with p(1) have "nat (gsi p) < 16" by (simp add: in_range_def)
        with u(3) ut p(2) show False by simp
      qed
      have b: "gsi p \<noteq> int (IRQ_SPURIOUS K)"
        using u(4) ut p(2) by auto
      have c: "gsi p \<noteq> 255 - int (T_IRQ0 K)"
      proof
        assume "gsi p = 255 - int (T_IRQ0 K)"
        then have "nat (gsi p) = 255 - T_IRQ0 K" by simp
        with u(5) ut p(2) show False by simp
      qed
      have d: "gsi p < 256 - int (T_IRQ0 K)"
        using p(1) h u(2) ut by (auto simp: in_range_def)
      show ?thesis using a b c d p(3) by simp
    qed
    with e(3) show ?thesis by blast
  qed
  show ?thesis
    using init one many by blast
qed

theorem irq_reserve_exclusive_witness:
  "length (irq_info_init K0) = 256 - T_IRQ0 K0 \<and> T_IRQ0 K0 \<le> 240
   \<and> IRQ_SPURIOUS K0 < 256 - T_IRQ0 K0
   \<and> (\<exists>t qs t'. inittrap K0 (irq_info_init K0) = Some t
         \<and> reserve_seq K0 reserve_requests0 t = Done (qs, t')
         \<and> map gsi qs = [222, 20, 221] \<and> map vector qs = [254, 52, 253]
         \<and> distinct (map gsi qs))"
proof -
  have l: "length (irq_info_init K0) = 256 - T_IRQ0 K0" "T_IRQ0 K0 \<le> 240"
    "IRQ_SPURIOUS K0 < 256 - T_IRQ0 K0"
    by (simp_all add: irq_info_init_def K0_def)
  have e: "(case inittrap K0 (irq_info_init K0) of None \<Rightarrow> False
            | Some t \<Rightarrow>
                (case reserve_seq K0 reserve_requests0 t of
                   Done (qs, t') \<Rightarrow> map gsi qs = [222, 20, 221] \<and> map vector qs = [254, 52, 253]
                 | Assert_failed \<Rightarrow> False | Out_of_bounds \<Rightarrow> False))"
    by code_simp
  then obtain t qs t' where r: "inittrap K0 (irq_info_init K0) = Some t"
      "reserve_seq K0 reserve_requests0 t = Done (qs, t')"
      "map gsi qs = [222, 20, 221]" "map vector qs = [254, 52, 253]"
    by (auto split: option.splits result.splits)
  from l r(1,2) have d: "distinct (map gsi qs)"
    using irq_reserve_exclusive [where ?t0.0 = "irq_info_init K0" and K = K0 and t = t
        and rs = reserve_requests0 and qs = qs and t' = t']
    by blast
  have "\<exists>t qs t'. inittrap K0 (irq_info_init K0) = Some t
         \<and> reserve_seq K0 reserve_requests0 t = Done (qs, t')
         \<and> map gsi qs = [222, 20, 221] \<and> map vector qs = [254, 52, 253]
         \<and> distinct (map gsi qs)"
    using r d by (rule_tac x = t in exI, rule_tac x = qs in exI, rule_tac x = t' in exI) simp
  with l show ?thesis by simp
qed

section \<open>The trap dispatcher\<close>

subsection \<open>Traces\<close>

lemma events_since_append: "trace s' = trace s @ evs \<Longrightarrow> events_since s s' = evs"
  by (simp add: events_since_def)

lemma trace_emit [simp]: "trace (emit e s) = trace s @ [e]"
  by (simp add: emit_def)

lemma emit_fields [simp]:
  "frame (emit e s) = frame s" "cpu (emit e s) = cpu s" "proc (emit e s) = proc s"
  "irq_tab (emit e s) = irq_tab s" "registered_trap_handlers (emit e s) = registered_trap_handlers s"
  "ENTRY_COUNT (emit e s) = ENTRY_COUNT s" "secrets_mapped (emit e s) = secrets_mapped s"
  "panicked (emit e s) = panicked s"
  by (simp_all add: emit_def)

lemma trace_yield [simp]: "trace (yield E s) = trace s @ [Yield (no_sched_count (cpu s))]"
  by (simp add: yield_def Let_def)

lemma yield_fields [simp]:
  "frame (yield E s) = frame s" "cpu (yield E s) = cpu s" "panicked (yield E s) = panicked s"
  by (simp_all add: yield_def Let_def)

text \<open>Prints on a kernel that has not panicked, and on one that has.\<close>

lemma print_event_ok [simp]: "\<not> panicked s \<Longrightarrow> print_event e s = Inr (emit e s)"
  by (simp add: print_event_def)

lemma print_event_frozen:
  "panicked s \<Longrightarrow> print_event e s = Inl (Frozen, s\<lparr>cpu := cli (cpu s)\<rparr>)"
  by (simp add: print_event_def)

lemma and_then_simps [simp]: "and_then (Inr s) f = f s" "and_then (Inl stop) f = Inl stop"
  by (simp_all add: and_then_def)

lemma print_pcs_ok:
  "\<not> panicked s \<Longrightarrow>
   print_pcs E bp msg i n s
     = Inr (s\<lparr>trace := trace s @ replicate (pcs_found E bp i n) (Cprintf msg)\<rparr>)"
proof (induction n arbitrary: i s)
  case 0
  then show ?case by simp
next
  case (Suc n)
  show ?case
  proof (cases "callerpcs E bp i \<noteq> 0")
    case False
    then show ?thesis by simp
  next
    case True
    have "\<not> panicked (emit (Cprintf msg) s)" using Suc.prems by simp
    from Suc.IH [OF this, of "i + 1"] True Suc.prems
    show ?thesis by (simp add: emit_def replicate_append_same)
  qed
qed

text \<open>
  The code after the \<^verbatim>\<open>switch\<close> adds at most a yield and a \<^verbatim>\<open>procexit(-1)\<close>, and the trap
  returns unless the process exits.
\<close>

lemma after_switch_shape:
  "\<exists>evs \<in> set (epilogue_events (no_sched_count (cpu s))).
      trace (snd (after_switch K E s)) = trace s @ evs
      \<and> fst (after_switch K E s) = (if Procexit (- 1) \<in> set evs then Exited else Returned)"
  by (auto simp: after_switch_def epilogue_events_def Let_def split: option.splits)

text \<open>
  Pairwise different labels, in both orientations, as the simplifier needs them to decide
  the tests of the \<^verbatim>\<open>switch\<close>.
\<close>

lemma labels_distinct_neq:
  assumes "labels_distinct K"
  shows "distinct (case_labels K)" and "distinct (rev (case_labels K))"
  using assms by (simp_all add: labels_distinct_def)

text \<open>What the \<^verbatim>\<open>switch\<close> does on the vectors of the local APIC and of the IPIs.\<close>

lemma trap_switch_spurious:
  assumes "labels_distinct K"
    and "unat (trapno (frame s)) = T_IRQ0 K + 7 \<or> unat (trapno (frame s)) = T_IRQ0 K + IRQ_SPURIOUS K"
    and "\<not> panicked s"
  shows "trap_switch K E hs s = (Break, emit (Cprintf ''spurious interrupt'') s)"
  using assms(2)
proof
  assume "unat (trapno (frame s)) = T_IRQ0 K + 7"
  then show ?thesis
    using labels_distinct_neq [OF assms(1)] assms(3)
    by (simp add: trap_switch_def Let_def case_labels_def)
next
  assume "unat (trapno (frame s)) = T_IRQ0 K + IRQ_SPURIOUS K"
  then show ?thesis
    using labels_distinct_neq [OF assms(1)] assms(3)
    by (simp add: trap_switch_def Let_def case_labels_def)
qed

lemma trap_switch_error:
  assumes "labels_distinct K" and "unat (trapno (frame s)) = T_IRQ0 K + IRQ_ERROR K"
    and "\<not> panicked s"
  shows "trap_switch K E hs s = (Break, emit Lapiceoi (emit (Cprintf ''lapic error?'') s))"
  using labels_distinct_neq [OF assms(1)] assms(2,3)
  by (simp add: trap_switch_def Let_def case_labels_def)

lemma trap_switch_tlbflush:
  assumes "labels_distinct K" and "unat (trapno (frame s)) = T_TLBFLUSH K"
  shows "trap_switch K E hs s = (Break, emit Tlb_shootdown_on_ipi (emit Lapiceoi s))"
  using labels_distinct_neq [OF assms(1)] assms(2)
  by (simp add: trap_switch_def Let_def case_labels_def)

lemma trap_switch_sampconf:
  assumes "labels_distinct K" and "unat (trapno (frame s)) = T_SAMPCONF K"
  shows "trap_switch K E hs s = (Break, emit Sampconf (emit Lapiceoi s))"
  using labels_distinct_neq [OF assms(1)] assms(2)
  by (simp add: trap_switch_def Let_def case_labels_def)

lemma trap_switch_pause:
  assumes "labels_distinct K" and "unat (trapno (frame s)) = T_PAUSE K"
  shows "trap_switch K E hs s = (Break, emit Pause_cpu (emit Lapiceoi s))"
  using labels_distinct_neq [OF assms(1)] assms(2)
  by (simp add: trap_switch_def Let_def case_labels_def)

lemma trap_switch_ipicall:
  assumes "labels_distinct K" and "unat (trapno (frame s)) = T_IPICALL K"
  shows "trap_switch K E hs s = (Break, emit On_ipicall (emit Lapiceoi s))"
  using labels_distinct_neq [OF assms(1)] assms(2)
  by (simp add: trap_switch_def Let_def case_labels_def)

lemma trap_switch_wake:
  assumes "labels_distinct K" and "unat (trapno (frame s)) = T_WAKE_CORE K"
  shows "trap_switch K E hs s = (Break, emit Lapiceoi s)"
  using labels_distinct_neq [OF assms(1)] assms(2)
  by (simp add: trap_switch_def Let_def case_labels_def)

lemma trap_break_events:
  assumes "trap_switch K E hs s = (Break, s1)" and "trace s1 = trace s @ pre"
  shows "\<exists>evs \<in> set (epilogue_events (no_sched_count (cpu s1))).
           events_since s (snd (trap K E hs s)) = pre @ evs
           \<and> fst (trap K E hs s) = (if Procexit (- 1) \<in> set evs then Exited else Returned)"
proof -
  from after_switch_shape [of s1 K E] obtain evs where
    e: "evs \<in> set (epilogue_events (no_sched_count (cpu s1)))"
      "trace (snd (after_switch K E s1)) = trace s1 @ evs"
      "fst (after_switch K E s1) = (if Procexit (- 1) \<in> set evs then Exited else Returned)"
    by blast
  have "trace (snd (trap K E hs s)) = trace s @ (pre @ evs)"
    using assms e(2) by (simp add: trap_def)
  then have "events_since s (snd (trap K E hs s)) = pre @ evs"
    by (rule events_since_append)
  moreover have "fst (trap K E hs s) = (if Procexit (- 1) \<in> set evs then Exited else Returned)"
    using assms(1) e(3) by (simp add: trap_def)
  ultimately show ?thesis using e(1) by blast
qed

lemma trap_switch_default:
  "unat (trapno (frame s)) \<notin> set (case_labels K) \<Longrightarrow>
   trap_switch K E hs s = trap_default K E hs s"
  by (simp add: trap_switch_def case_labels_def Let_def)

lemma run_handlers_trace: "trace (run_handlers hl s) = trace s @ map Handle_irq hl"
  by (induction hl arbitrary: s) simp_all

lemma run_handlers_fields [simp]:
  "frame (run_handlers hl s) = frame s" "proc (run_handlers hl s) = proc s"
  "cpu (run_handlers hl s) = cpu s" "irq_tab (run_handlers hl s) = irq_tab s"
  by (induction hl arbitrary: s) simp_all


lemma printtrap_out_of_bounds:
  assumes "21 \<le> unat (trapno (frame s))" and "unat (trapno (frame s)) < 168"
  shows "printtrap K s = Inl (Undefined, s)"
  using assms by (simp add: printtrap_def Let_def sizeof_trapnames_def trapnames_def)


lemma kerneltrap_out_of_bounds:
  assumes "\<not> panicked s" and "21 \<le> unat (trapno (frame s))" and "unat (trapno (frame s)) < 168"
  shows "kerneltrap K E s =
    (Undefined, s\<lparr>cpu := cli (cpu s), trace := trace s @ [Tryacquire_cons_lock, Cprintf ''kernel '']\<rparr>)"
  using assms by (simp add: kerneltrap_def Let_def printtrap_out_of_bounds emit_def)

lemma kerneltrap_frozen:
  assumes "panicked s"
  shows "kerneltrap K E s =
    (Frozen, s\<lparr>cpu := cli (cpu s), trace := trace s @ [Tryacquire_cons_lock]\<rparr>)"
  using assms by (simp add: kerneltrap_def Let_def print_event_def emit_def cli_def)

lemma unexpected_trap_kernel:
  assumes "proc s = None \<or> cs (frame s) AND 3 = 0"
  shows "unexpected_trap K E s = stopped (kerneltrap K E s)"
  using assms by (auto simp: unexpected_trap_def split: option.splits)

lemma unexpected_trap_user:
  assumes "proc s = Some p" and "cs (frame s) AND 3 = 3" and "\<not> panicked s"
  shows "unexpected_trap K E s =
           (Break, (emit (Uerr_println ''--kill proc'') s)\<lparr>proc := Some (p\<lparr>killed := True\<rparr>)\<rparr>)"
  using assms by (simp add: unexpected_trap_def Let_def)

lemma unexpected_trap_user_frozen:
  assumes "proc s = Some p" and "cs (frame s) AND 3 = 3" and "panicked s"
  shows "unexpected_trap K E s = (Stop Frozen, s\<lparr>cpu := cli (cpu s)\<rparr>)"
  using assms by (simp add: unexpected_trap_def print_event_def stopped_def)
subsection \<open>End-of-interrupt on the local APIC's vectors\<close>

text \<open>
  Claim C7. With pairwise different case labels. On the spurious vector
  (\<open>T_IRQ0 + IRQ_SPURIOUS\<close>, and \<open>T_IRQ0 + 7\<close>, which shares its case) the trap never sends
  an end-of-interrupt, neither to the local APIC nor to the PIC. If the kernel has not
  panicked, the events of the trap are the diagnostic print followed only by what the
  code after the \<^verbatim>\<open>switch\<close> adds (a yield, a \<^verbatim>\<open>procexit(-1)\<close>), and the trap returns unless
  the process exits; if the kernel has panicked the print never comes back and the trap
  has no event at all. On the vector of the local APIC error, if the kernel has not
  panicked, the events are the print and then the end-of-interrupt, followed only by the
  events after the \<^verbatim>\<open>switch\<close>. On the vectors of the TLB shootdown, the sampler
  configuration, the pause, the IPI call and the wake-up, there is no print: the events
  are the end-of-interrupt and then the call of the handler (none for the wake-up),
  followed only by the events after the \<^verbatim>\<open>switch\<close>; the trap returns unless the process
  exits.
\<close>

theorem spurious_never_acknowledged:
  assumes "labels_distinct K"
  shows "(unat (trapno (frame s)) = T_IRQ0 K + IRQ_SPURIOUS K \<or> unat (trapno (frame s)) = T_IRQ0 K + 7 \<longrightarrow>
            Lapiceoi \<notin> set (events_since s (snd (trap K E hs s)))
            \<and> Piceoi \<notin> set (events_since s (snd (trap K E hs s)))
            \<and> (\<not> panicked s \<longrightarrow>
                 (\<exists>evs \<in> set (epilogue_events (no_sched_count (cpu s))).
                    events_since s (snd (trap K E hs s)) = [Cprintf ''spurious interrupt''] @ evs
                    \<and> fst (trap K E hs s) = (if Procexit (- 1) \<in> set evs then Exited else Returned)))
            \<and> (panicked s \<longrightarrow>
                 fst (trap K E hs s) = Frozen \<and> events_since s (snd (trap K E hs s)) = []))
         \<and> (unat (trapno (frame s)) = T_IRQ0 K + IRQ_ERROR K \<and> \<not> panicked s \<longrightarrow>
              (\<exists>evs \<in> set (epilogue_events (no_sched_count (cpu s))).
                 events_since s (snd (trap K E hs s)) = [Cprintf ''lapic error?'', Lapiceoi] @ evs
                 \<and> fst (trap K E hs s) = (if Procexit (- 1) \<in> set evs then Exited else Returned)))
         \<and> (unat (trapno (frame s)) = T_TLBFLUSH K \<longrightarrow>
              (\<exists>evs \<in> set (epilogue_events (no_sched_count (cpu s))).
                 events_since s (snd (trap K E hs s)) = [Lapiceoi, Tlb_shootdown_on_ipi] @ evs
                 \<and> fst (trap K E hs s) = (if Procexit (- 1) \<in> set evs then Exited else Returned)))
         \<and> (unat (trapno (frame s)) = T_SAMPCONF K \<longrightarrow>
              (\<exists>evs \<in> set (epilogue_events (no_sched_count (cpu s))).
                 events_since s (snd (trap K E hs s)) = [Lapiceoi, Sampconf] @ evs
                 \<and> fst (trap K E hs s) = (if Procexit (- 1) \<in> set evs then Exited else Returned)))
         \<and> (unat (trapno (frame s)) = T_PAUSE K \<longrightarrow>
              (\<exists>evs \<in> set (epilogue_events (no_sched_count (cpu s))).
                 events_since s (snd (trap K E hs s)) = [Lapiceoi, Pause_cpu] @ evs
                 \<and> fst (trap K E hs s) = (if Procexit (- 1) \<in> set evs then Exited else Returned)))
         \<and> (unat (trapno (frame s)) = T_IPICALL K \<longrightarrow>
              (\<exists>evs \<in> set (epilogue_events (no_sched_count (cpu s))).
                 events_since s (snd (trap K E hs s)) = [Lapiceoi, On_ipicall] @ evs
                 \<and> fst (trap K E hs s) = (if Procexit (- 1) \<in> set evs then Exited else Returned)))
         \<and> (unat (trapno (frame s)) = T_WAKE_CORE K \<longrightarrow>
              (\<exists>evs \<in> set (epilogue_events (no_sched_count (cpu s))).
                 events_since s (snd (trap K E hs s)) = [Lapiceoi] @ evs
                 \<and> fst (trap K E hs s) = (if Procexit (- 1) \<in> set evs then Exited else Returned)))"
proof -
  let ?ev = "events_since s (snd (trap K E hs s))"
  have sp: "Lapiceoi \<notin> set ?ev \<and> Piceoi \<notin> set ?ev
            \<and> (\<not> panicked s \<longrightarrow>
                 (\<exists>evs \<in> set (epilogue_events (no_sched_count (cpu s))).
                    events_since s (snd (trap K E hs s)) = [Cprintf ''spurious interrupt''] @ evs
                    \<and> fst (trap K E hs s) = (if Procexit (- 1) \<in> set evs then Exited else Returned)))
            \<and> (panicked s \<longrightarrow> fst (trap K E hs s) = Frozen \<and> ?ev = [])"
    if v: "unat (trapno (frame s)) = T_IRQ0 K + IRQ_SPURIOUS K \<or> unat (trapno (frame s)) = T_IRQ0 K + 7"
  proof (cases "panicked s")
    case True
    have "trap_switch K E hs s = (Stop Frozen, s\<lparr>cpu := cli (cpu s)\<rparr>)"
      using v
    proof
      assume "unat (trapno (frame s)) = T_IRQ0 K + 7"
      then show ?thesis
        using labels_distinct_neq [OF assms] True
        by (simp add: trap_switch_def Let_def case_labels_def print_event_def stopped_def)
    next
      assume "unat (trapno (frame s)) = T_IRQ0 K + IRQ_SPURIOUS K"
      then show ?thesis
        using labels_distinct_neq [OF assms] True
        by (simp add: trap_switch_def Let_def case_labels_def print_event_def stopped_def)
    qed
    then have "trap K E hs s = (Frozen, s\<lparr>cpu := cli (cpu s)\<rparr>)"
      by (simp add: trap_def)
    with True show ?thesis by (simp add: events_since_def)
  next
    case False
    from v have "unat (trapno (frame s)) = T_IRQ0 K + 7 \<or> unat (trapno (frame s)) = T_IRQ0 K + IRQ_SPURIOUS K"
      by blast
    from trap_break_events [OF trap_switch_spurious [OF assms this False, of E hs],
        of "[Cprintf ''spurious interrupt'']"]
    obtain evs where e: "evs \<in> set (epilogue_events (no_sched_count (cpu s)))"
        "?ev = [Cprintf ''spurious interrupt''] @ evs"
        "fst (trap K E hs s) = (if Procexit (- 1) \<in> set evs then Exited else Returned)"
      by auto
    from e(1,2) have "Lapiceoi \<notin> set ?ev" "Piceoi \<notin> set ?ev"
      by (auto simp: epilogue_events_def)
    with e False show ?thesis by blast
  qed
  have er: "(\<exists>evs \<in> set (epilogue_events (no_sched_count (cpu s))).
           events_since s (snd (trap K E hs s)) = [Cprintf ''lapic error?'', Lapiceoi] @ evs
           \<and> fst (trap K E hs s) = (if Procexit (- 1) \<in> set evs then Exited else Returned))"
    if "unat (trapno (frame s)) = T_IRQ0 K + IRQ_ERROR K \<and> \<not> panicked s"
  proof -
    from that have v: "unat (trapno (frame s)) = T_IRQ0 K + IRQ_ERROR K" and n: "\<not> panicked s"
      by simp_all
    from trap_break_events [OF trap_switch_error [OF assms v n, of E hs],
        of "[Cprintf ''lapic error?'', Lapiceoi]"]
    show ?thesis by simp
  qed
  have c0: "(\<exists>evs \<in> set (epilogue_events (no_sched_count (cpu s))).
           events_since s (snd (trap K E hs s)) = [Lapiceoi, Tlb_shootdown_on_ipi] @ evs
           \<and> fst (trap K E hs s) = (if Procexit (- 1) \<in> set evs then Exited else Returned))"
    if v: "unat (trapno (frame s)) = T_TLBFLUSH K"
    using trap_break_events [OF trap_switch_tlbflush [OF assms v, of E hs], of "[Lapiceoi, Tlb_shootdown_on_ipi]"]
    by simp
  have c1: "(\<exists>evs \<in> set (epilogue_events (no_sched_count (cpu s))).
           events_since s (snd (trap K E hs s)) = [Lapiceoi, Sampconf] @ evs
           \<and> fst (trap K E hs s) = (if Procexit (- 1) \<in> set evs then Exited else Returned))"
    if v: "unat (trapno (frame s)) = T_SAMPCONF K"
    using trap_break_events [OF trap_switch_sampconf [OF assms v, of E hs], of "[Lapiceoi, Sampconf]"]
    by simp
  have c2: "(\<exists>evs \<in> set (epilogue_events (no_sched_count (cpu s))).
           events_since s (snd (trap K E hs s)) = [Lapiceoi, Pause_cpu] @ evs
           \<and> fst (trap K E hs s) = (if Procexit (- 1) \<in> set evs then Exited else Returned))"
    if v: "unat (trapno (frame s)) = T_PAUSE K"
    using trap_break_events [OF trap_switch_pause [OF assms v, of E hs], of "[Lapiceoi, Pause_cpu]"]
    by simp
  have c3: "(\<exists>evs \<in> set (epilogue_events (no_sched_count (cpu s))).
           events_since s (snd (trap K E hs s)) = [Lapiceoi, On_ipicall] @ evs
           \<and> fst (trap K E hs s) = (if Procexit (- 1) \<in> set evs then Exited else Returned))"
    if v: "unat (trapno (frame s)) = T_IPICALL K"
    using trap_break_events [OF trap_switch_ipicall [OF assms v, of E hs], of "[Lapiceoi, On_ipicall]"]
    by simp
  have c4: "(\<exists>evs \<in> set (epilogue_events (no_sched_count (cpu s))).
           events_since s (snd (trap K E hs s)) = [Lapiceoi] @ evs
           \<and> fst (trap K E hs s) = (if Procexit (- 1) \<in> set evs then Exited else Returned))"
    if v: "unat (trapno (frame s)) = T_WAKE_CORE K"
    using trap_break_events [OF trap_switch_wake [OF assms v, of E hs], of "[Lapiceoi]"]
    by simp
  have sp': "unat (trapno (frame s)) = T_IRQ0 K + IRQ_SPURIOUS K \<or> unat (trapno (frame s)) = T_IRQ0 K + 7 \<longrightarrow>
            Lapiceoi \<notin> set ?ev \<and> Piceoi \<notin> set ?ev
            \<and> (\<not> panicked s \<longrightarrow>
                 (\<exists>evs \<in> set (epilogue_events (no_sched_count (cpu s))).
                    ?ev = [Cprintf ''spurious interrupt''] @ evs
                    \<and> fst (trap K E hs s) = (if Procexit (- 1) \<in> set evs then Exited else Returned)))
            \<and> (panicked s \<longrightarrow> fst (trap K E hs s) = Frozen \<and> ?ev = [])"
    using sp by (rule impI)
  show ?thesis
    using sp' impI [OF er] impI [OF c0] impI [OF c1] impI [OF c2] impI [OF c3] impI [OF c4]
    by - (intro conjI; assumption)
qed

lemma labels_distinct_K0: "labels_distinct K0"
  by (simp add: labels_distinct_def case_labels_def K0_def)

theorem spurious_never_acknowledged_witness:
  "labels_distinct K0
   \<and> unat (trapno (frame (kstate0 (frame0 63 3 0) (Some proc0)))) = T_IRQ0 K0 + IRQ_SPURIOUS K0
   \<and> \<not> panicked (kstate0 (frame0 63 3 0) (Some proc0))
   \<and> trap K0 (env0 0) False (kstate0 (frame0 63 3 0) (Some proc0))
      = (Returned, (kstate0 (frame0 63 3 0) (Some proc0))\<lparr>trace := [Cprintf ''spurious interrupt'']\<rparr>)
   \<and> Lapiceoi \<notin> set (events_since (kstate0 (frame0 63 3 0) (Some proc0))
        (snd (trap K0 (env0 0) False (kstate0 (frame0 63 3 0) (Some proc0)))))
   \<and> unat (trapno (frame (kstate0 (frame0 65 3 0) (Some proc0)))) = T_TLBFLUSH K0
   \<and> (\<exists>evs \<in> set (epilogue_events 0).
         events_since (kstate0 (frame0 65 3 0) (Some proc0))
           (snd (trap K0 (env0 0) False (kstate0 (frame0 65 3 0) (Some proc0))))
         = [Lapiceoi, Tlb_shootdown_on_ipi] @ evs)"
proof -
  have a: "unat (trapno (frame (kstate0 (frame0 63 3 0) (Some proc0)))) = T_IRQ0 K0 + IRQ_SPURIOUS K0"
    "\<not> panicked (kstate0 (frame0 63 3 0) (Some proc0))"
    by (simp_all add: kstate0_def frame0_def K0_def)
  have b: "unat (trapno (frame (kstate0 (frame0 65 3 0) (Some proc0)))) = T_TLBFLUSH K0"
    "no_sched_count (cpu (kstate0 (frame0 65 3 0) (Some proc0))) = 0"
    by (simp_all add: kstate0_def frame0_def K0_def cpu0_def)
  have c: "trap K0 (env0 0) False (kstate0 (frame0 63 3 0) (Some proc0))
      = (Returned, (kstate0 (frame0 63 3 0) (Some proc0))\<lparr>trace := [Cprintf ''spurious interrupt'']\<rparr>)"
    by (simp add: trap_def trap_switch_def after_switch_def killed_in_user_def print_event_def
          Let_def kstate0_def frame0_def proc0_def K0_def emit_def)
  note sp = spurious_never_acknowledged [OF labels_distinct_K0,
      of "kstate0 (frame0 63 3 0) (Some proc0)" "env0 0" False]
  note tl = spurious_never_acknowledged [OF labels_distinct_K0,
      of "kstate0 (frame0 65 3 0) (Some proc0)" "env0 0" False]
  have d: "Lapiceoi \<notin> set (events_since (kstate0 (frame0 63 3 0) (Some proc0))
        (snd (trap K0 (env0 0) False (kstate0 (frame0 63 3 0) (Some proc0)))))"
    using sp [THEN conjunct1, THEN mp, OF disjI1 [OF a(1)], THEN conjunct1] .
  have e: "\<exists>evs \<in> set (epilogue_events 0).
         events_since (kstate0 (frame0 65 3 0) (Some proc0))
           (snd (trap K0 (env0 0) False (kstate0 (frame0 65 3 0) (Some proc0))))
         = [Lapiceoi, Tlb_shootdown_on_ipi] @ evs"
    using tl [THEN conjunct2, THEN conjunct2, THEN conjunct1, THEN mp, OF b(1)]
    unfolding b(2) by blast
  show ?thesis
    using labels_distinct_K0 a b(1) c d e by - (intro conjI; assumption)
qed
subsection \<open>Device interrupts\<close>

text \<open>
  The branch of the \<^verbatim>\<open>default\<close> case that consults the registry. Take a trap whose vector
  is no case label of the \<^verbatim>\<open>switch\<close>, is not the illegal-instruction vector, is at least
  \<open>T_IRQ0\<close>, and whose line in the registry has a non-empty handler chain. The dispatcher
  invokes every handler of the chain, in chain order, then issues the end-of-interrupt to
  the local APIC and to the PIC, and returns: the events of the trap are exactly the
  handlers followed by the two acknowledgements.
\<close>

lemma irq_chain_then_eoi:
  assumes "unat (trapno (frame s)) \<notin> set (case_labels K)"
    and "unat (trapno (frame s)) \<noteq> T_ILLOP K"
    and "T_IRQ0 K \<le> unat (trapno (frame s))"
    and "unat (trapno (frame s)) - T_IRQ0 K < length (irq_tab s)"
    and "handlers (irq_tab s ! (unat (trapno (frame s)) - T_IRQ0 K)) \<noteq> []"
  shows "fst (trap K E hs s) = Returned
         \<and> events_since s (snd (trap K E hs s)) =
             map Handle_irq (handlers (irq_tab s ! (unat (trapno (frame s)) - T_IRQ0 K)))
               @ [Lapiceoi, Piceoi]"
proof -
  let ?hl = "handlers (irq_tab s ! (unat (trapno (frame s)) - T_IRQ0 K))"
  have d: "trap_switch K E hs s = (Return, emit Piceoi (emit Lapiceoi (run_handlers ?hl s)))"
    using assms by (simp add: trap_switch_default trap_default_def Let_def)
  then have t: "trap K E hs s = (Returned, emit Piceoi (emit Lapiceoi (run_handlers ?hl s)))"
    by (simp add: trap_def)
  have "trace (snd (trap K E hs s)) = trace s @ (map Handle_irq ?hl @ [Lapiceoi, Piceoi])"
    by (simp add: t run_handlers_trace)
  then have "events_since s (snd (trap K E hs s)) = map Handle_irq ?hl @ [Lapiceoi, Piceoi]"
    by (rule events_since_append)
  with t show ?thesis by simp
qed

lemma irq_chain_then_eoi_example:
  "unat (trapno (frame ((kstate0 (frame0 80 3 0) (Some proc0))
       \<lparr>irq_tab := (irq_info_init K0)[48 := \<lparr>handlers = [7, 9], in_use = True\<rparr>]\<rparr>))) \<notin> set (case_labels K0)
   \<and> fst (trap K0 (env0 0) False ((kstate0 (frame0 80 3 0) (Some proc0))
       \<lparr>irq_tab := (irq_info_init K0)[48 := \<lparr>handlers = [7, 9], in_use = True\<rparr>]\<rparr>)) = Returned
   \<and> events_since ((kstate0 (frame0 80 3 0) (Some proc0))
         \<lparr>irq_tab := (irq_info_init K0)[48 := \<lparr>handlers = [7, 9], in_use = True\<rparr>]\<rparr>)
       (snd (trap K0 (env0 0) False ((kstate0 (frame0 80 3 0) (Some proc0))
         \<lparr>irq_tab := (irq_info_init K0)[48 := \<lparr>handlers = [7, 9], in_use = True\<rparr>]\<rparr>)))
     = [Handle_irq 7, Handle_irq 9, Lapiceoi, Piceoi]"
proof -
  let ?s = "(kstate0 (frame0 80 3 0) (Some proc0))
       \<lparr>irq_tab := (irq_info_init K0)[48 := \<lparr>handlers = [7, 9], in_use = True\<rparr>]\<rparr>"
  have v: "unat (trapno (frame ?s)) = 80" by (simp add: kstate0_def frame0_def)
  have a: "unat (trapno (frame ?s)) \<notin> set (case_labels K0)"
    by (simp add: kstate0_def frame0_def case_labels_def K0_def)
  have b: "unat (trapno (frame ?s)) \<noteq> T_ILLOP K0" by (simp add: kstate0_def frame0_def K0_def)
  have c: "T_IRQ0 K0 \<le> unat (trapno (frame ?s))" by (simp add: kstate0_def frame0_def K0_def)
  have d: "unat (trapno (frame ?s)) - T_IRQ0 K0 < length (irq_tab ?s)"
    by (simp add: kstate0_def frame0_def K0_def irq_info_init_def)
  have h: "handlers (irq_tab ?s ! (unat (trapno (frame ?s)) - T_IRQ0 K0)) = [7, 9]"
    by (simp add: kstate0_def frame0_def K0_def irq_info_init_def)
  then have e: "handlers (irq_tab ?s ! (unat (trapno (frame ?s)) - T_IRQ0 K0)) \<noteq> []" by simp
  show ?thesis
    using a irq_chain_then_eoi [OF a b c d e, of "env0 0" False] h by simp
qed

text \<open>
  Claim C2 fails on a registered line whose vector has a case of its own in the
  \<^verbatim>\<open>switch\<close>: the registry is consulted only in the \<^verbatim>\<open>default\<close> case. \<^verbatim>\<open>inittrap\<close> keeps such
  lines out of the registry for the legacy IRQs and for the spurious vector ("Also
  reserve the spurious vector"), but not for the line of the local APIC error. With the
  constants \<open>K0\<close>, line 19 is free after \<^verbatim>\<open>inittrap\<close>, so \<^verbatim>\<open>reserve\<close> grants it (vector 51) and
  \<^verbatim>\<open>register_handler\<close> puts handler 7 on its chain; an interrupt on vector 51, which is
  \<open>T_IRQ0 + IRQ_ERROR\<close>, prints the local APIC error message and acknowledges, and
  handler 7 is never invoked.
\<close>

theorem irq_chain_failing_input:
  "(\<exists>t1 t2 q t3.
      inittrap K0 (irq_info_init K0) = Some t1
      \<and> irq_reserve K0 False (Some [19]) t1 irq_none = Done (True, t2, q)
      \<and> vector q = 51
      \<and> register_handler K0 True 7 t2 q = Done t3
      \<and> handlers (t3 ! 19) = [7]
      \<and> events_since ((kstate0 (frame0 51 0 0) (Some proc0))\<lparr>irq_tab := t3\<rparr>)
           (snd (trap K0 (env0 0) False ((kstate0 (frame0 51 0 0) (Some proc0))\<lparr>irq_tab := t3\<rparr>)))
         = [Cprintf ''lapic error?'', Lapiceoi])"
proof -
  have e: "(case inittrap K0 (irq_info_init K0) of None \<Rightarrow> False
            | Some t1 \<Rightarrow>
                (case irq_reserve K0 False (Some [19]) t1 irq_none of
                   Done (ok, t2, q) \<Rightarrow>
                     ok \<and> vector q = 51
                     \<and> (case register_handler K0 True 7 t2 q of
                           Done t3 \<Rightarrow> handlers (t3 ! 19) = [7]
                         | Assert_failed \<Rightarrow> False | Out_of_bounds \<Rightarrow> False)
                 | Assert_failed \<Rightarrow> False | Out_of_bounds \<Rightarrow> False))"
    by code_simp
  then obtain t1 where r1: "inittrap K0 (irq_info_init K0) = Some t1"
    and e1: "(case irq_reserve K0 False (Some [19]) t1 irq_none of
                   Done (ok, t2, q) \<Rightarrow>
                     ok \<and> vector q = 51
                     \<and> (case register_handler K0 True 7 t2 q of
                           Done t3 \<Rightarrow> handlers (t3 ! 19) = [7]
                         | Assert_failed \<Rightarrow> False | Out_of_bounds \<Rightarrow> False)
                 | Assert_failed \<Rightarrow> False | Out_of_bounds \<Rightarrow> False)"
    by (cases "inittrap K0 (irq_info_init K0)") auto
  from e1 obtain t2 q where r2: "irq_reserve K0 False (Some [19]) t1 irq_none = Done (True, t2, q)"
    and r3: "vector q = 51"
    and e2: "(case register_handler K0 True 7 t2 q of
                           Done t3 \<Rightarrow> handlers (t3 ! 19) = [7]
                         | Assert_failed \<Rightarrow> False | Out_of_bounds \<Rightarrow> False)"
    by (cases "irq_reserve K0 False (Some [19]) t1 irq_none") auto
  from e2 obtain t3 where r4: "register_handler K0 True 7 t2 q = Done t3"
    and r5: "handlers (t3 ! 19) = [7]"
    by (cases "register_handler K0 True 7 t2 q") auto
  note r = r1 r2 r3 r4 r5
  have t: "events_since ((kstate0 (frame0 51 0 0) (Some proc0))\<lparr>irq_tab := t3\<rparr>)
           (snd (trap K0 (env0 0) False ((kstate0 (frame0 51 0 0) (Some proc0))\<lparr>irq_tab := t3\<rparr>)))
         = [Cprintf ''lapic error?'', Lapiceoi]"
    by (simp add: events_since_def trap_def trap_switch_def after_switch_def killed_in_user_def
          print_event_def Let_def kstate0_def frame0_def proc0_def K0_def emit_def)
  show ?thesis
    using r t
    by (rule_tac x = t1 in exI, rule_tac x = t2 in exI, rule_tac x = q in exI,
        rule_tac x = t3 in exI) simp
qed

subsection \<open>Traps that no handler takes\<close>

text \<open>
  A trap that nothing takes reaches the end of the \<^verbatim>\<open>default\<close> case: the instruction of an
  illegal-instruction trap is none of the two that the dispatcher emulates, the
  page-fault handler declines a page fault and leaves the state as it is, the IRQ line
  has no handler, and no trap handler is registered.
\<close>

lemma trap_default_no_handler:
  assumes "unat (trapno (frame s)) = T_ILLOP K \<longrightarrow>
           \<not> (cs (frame s) AND 3 = 0 \<and> KTEXT K \<le> rip (frame s) \<and> rip (frame s) < KTEXTEND K
                \<and> mem_u64 E (rip (frame s)) AND 0xc0fffff0ff = 0xc0b80f40f3)
           \<and> \<not> (cs (frame s) AND 3 = 3 \<and> mem_u64 E (rip (frame s)) AND 0xffff = 0x0b0f)"
    and "unat (trapno (frame s)) = T_PGFLT K \<longrightarrow> do_pagefault K E hs s = (Some (- 1), s)"
    and "unat (trapno (frame s)) < 256"
    and "T_IRQ0 K \<le> unat (trapno (frame s)) \<longrightarrow>
           unat (trapno (frame s)) - T_IRQ0 K < length (irq_tab s)
           \<and> handlers (irq_tab s ! (unat (trapno (frame s)) - T_IRQ0 K)) = []"
    and "registered_trap_handlers s (unat (trapno (frame s))) = None"
  shows "trap_default K E hs s = unexpected_trap K E s"
proof (cases "unat (trapno (frame s)) = T_ILLOP K \<and> cs (frame s) AND 3 = 0
                \<and> KTEXT K \<le> rip (frame s) \<and> rip (frame s) < KTEXTEND K")
  case True
  then show ?thesis using assms(1) by (simp add: trap_default_def Let_def)
next
  case False
  note f1 = False
  show ?thesis
  proof (cases "unat (trapno (frame s)) = T_ILLOP K \<and> cs (frame s) AND 3 = 3")
    case True
    then show ?thesis using f1 assms(1) by (simp add: trap_default_def Let_def)
  next
    case False
    have r: "registered_or_unexpected K E s = unexpected_trap K E s"
      using assms(3,5) by (simp add: registered_or_unexpected_def Let_def)
    show ?thesis
    proof (cases "unat (trapno (frame s)) = T_PGFLT K")
      case True
      with assms(2) have "do_pagefault K E hs s = (Some (- 1), s)" by simp
      then show ?thesis
        using f1 False True assms(4) r by (auto simp: trap_default_def Let_def)
    next
      case n: False
      show ?thesis
        using f1 False n assms(4) r by (auto simp: trap_default_def Let_def)
    qed
  qed
qed

lemma unhandled_trap_trapnames_out_of_bounds:
  assumes "unat (trapno (frame s)) \<notin> set (case_labels K)"
    and "unat (trapno (frame s)) = T_ILLOP K \<longrightarrow>
           \<not> (cs (frame s) AND 3 = 0 \<and> KTEXT K \<le> rip (frame s) \<and> rip (frame s) < KTEXTEND K
                \<and> mem_u64 E (rip (frame s)) AND 0xc0fffff0ff = 0xc0b80f40f3)
           \<and> \<not> (cs (frame s) AND 3 = 3 \<and> mem_u64 E (rip (frame s)) AND 0xffff = 0x0b0f)"
    and "unat (trapno (frame s)) = T_PGFLT K \<longrightarrow> do_pagefault K E hs s = (Some (- 1), s)"
    and "unat (trapno (frame s)) < 256"
    and "T_IRQ0 K \<le> unat (trapno (frame s)) \<longrightarrow>
           unat (trapno (frame s)) - T_IRQ0 K < length (irq_tab s)
           \<and> handlers (irq_tab s ! (unat (trapno (frame s)) - T_IRQ0 K)) = []"
    and "registered_trap_handlers s (unat (trapno (frame s))) = None"
    and "\<not> panicked s" and "proc s = None \<or> cs (frame s) AND 3 = 0"
    and "21 \<le> unat (trapno (frame s))" and "unat (trapno (frame s)) < 168"
  shows "trap K E hs s =
    (Undefined, s\<lparr>cpu := cli (cpu s), trace := trace s @ [Tryacquire_cons_lock, Cprintf ''kernel '']\<rparr>)"
proof -
  have "trap_switch K E hs s = unexpected_trap K E s"
    using assms(1-6) by (simp add: trap_switch_default trap_default_no_handler)
  then show ?thesis
    using unexpected_trap_kernel [OF assms(8), of K E] kerneltrap_out_of_bounds [OF assms(7,9,10), of K E]
    by (simp add: trap_def stopped_def)
qed


subsection \<open>Page faults from user mode\<close>

text \<open>
  Claim C1, as the claim states it, fails in two ways, on user-mode page faults (vector
  14, \<open>cs AND 3 = 3\<close>, error code with the user bit) below \<open>USERTOP\<close> for which the
  resolver returns \<open>-1\<close> and the signal would be refused. At address 123 the dispatcher
  neither calls the resolver nor delivers a signal: it skips eight bytes of code and
  resumes, with no event at all. At address \<open>0x2000\<close> with a trap handler registered for
  vector 14, the signal is attempted and refused, then the registered handler runs and
  the trap returns with the process not marked killed.
\<close>

theorem user_pagefault_counterexample:
  "cs (frame0 14 3 4) AND 3 = 3 \<and> err (frame0 14 3 4) AND FEC_U K0 \<noteq> 0
   \<and> (123 :: u64) < USERTOP K0 \<and> pagefault (env0 123) 123 4 < 0
   \<and> fst (trap K0 (env0 123) False (kstate0 (frame0 14 3 4) (Some proc0))) = Returned
   \<and> events_since (kstate0 (frame0 14 3 4) (Some proc0))
        (snd (trap K0 (env0 123) False (kstate0 (frame0 14 3 4) (Some proc0)))) = []
   \<and> proc (snd (trap K0 (env0 123) False (kstate0 (frame0 14 3 4) (Some proc0)))) = Some proc0
   \<and> rip (frame (snd (trap K0 (env0 123) False (kstate0 (frame0 14 3 4) (Some proc0))))) = 4096 + 8
   \<and> (8192 :: u64) < USERTOP K0 \<and> pagefault (env0 8192) 8192 4 < 0
   \<and> \<not> deliver_signal (env0 8192) (SIGSEGV K0)
   \<and> fst (trap K0 (env0 8192) False
          ((kstate0 (frame0 14 3 4) (Some proc0))\<lparr>registered_trap_handlers := (\<lambda>v. None)(14 := Some 99)\<rparr>))
      = Returned
   \<and> events_since ((kstate0 (frame0 14 3 4) (Some proc0))\<lparr>registered_trap_handlers := (\<lambda>v. None)(14 := Some 99)\<rparr>)
        (snd (trap K0 (env0 8192) False
          ((kstate0 (frame0 14 3 4) (Some proc0))\<lparr>registered_trap_handlers := (\<lambda>v. None)(14 := Some 99)\<rparr>)))
      = [Pagefault 8192 4, Deliver_signal 11, Switch_to_kstack, Registered_trap_handler 99]
   \<and> proc (snd (trap K0 (env0 8192) False
          ((kstate0 (frame0 14 3 4) (Some proc0))\<lparr>registered_trap_handlers := (\<lambda>v. None)(14 := Some 99)\<rparr>)))
      = Some proc0
   \<and> \<not> killed proc0"
  by (simp add: events_since_def trap_def trap_switch_def trap_default_def do_pagefault_def
        registered_or_unexpected_def ensure_secrets_def pushcli_def popcli_def cli_def sti_def
        record_entry_time_def after_switch_def killed_in_user_def Let_def kstate0_def frame0_def
        proc0_def env0_def cpu0_def K0_def emit_def irq_info_init_def word_sless_alt)

text \<open>
  Claim C1, amended. Take a kernel that has not panicked and a page fault (vector
  \<open>T_PGFLT\<close>) with a current process \<open>p\<close>, taken from user mode (\<open>cs AND 3 = 3\<close>, user bit
  set in the error code), at an address below \<open>USERTOP\<close> other than the instrumentation
  address 123, for which the resolver returns a negative result. The dispatcher calls the resolver and then attempts to
  deliver \<open>SIGSEGV\<close>: these are the first two events. If the signal is accepted, the trap
  returns, or the process exits if it was already marked killed. If the signal is
  refused and no trap handler is registered for the page-fault vector, the kernel prints
  its message, the process is marked killed and made to exit.
\<close>

theorem user_pagefault_signal_or_kill:
  assumes "exceptions_ok K"
    and "unat (trapno (frame s)) = T_PGFLT K"
    and "proc s = Some p"
    and "cs (frame s) AND 3 = 3"
    and "err (frame s) AND FEC_U K \<noteq> 0"
    and "rcr2 E < USERTOP K" and "rcr2 E \<noteq> 123"
    and "pagefault E (rcr2 E) (err (frame s)) < 0"
    and "\<not> panicked s"
  shows "take 2 (events_since s (snd (trap K E hs s))) =
           [Pagefault (rcr2 E) (err (frame s)), Deliver_signal (SIGSEGV K)]
         \<and> (deliver_signal E (SIGSEGV K) \<longrightarrow>
              fst (trap K E hs s) = (if killed p then Exited else Returned)
              \<and> proc (snd (trap K E hs s)) = Some p
              \<and> events_since s (snd (trap K E hs s)) =
                  [Pagefault (rcr2 E) (err (frame s)), Deliver_signal (SIGSEGV K)]
                  @ (if killed p then [Procexit (- 1)] else []))
         \<and> (\<not> deliver_signal E (SIGSEGV K) \<and> registered_trap_handlers s (T_PGFLT K) = None \<longrightarrow>
              fst (trap K E hs s) = Exited
              \<and> proc (snd (trap K E hs s)) = Some (p\<lparr>killed := True\<rparr>)
              \<and> events_since s (snd (trap K E hs s)) =
                  [Pagefault (rcr2 E) (err (frame s)), Deliver_signal (SIGSEGV K),
                   Uerr_println ''--kill proc'', Procexit (- 1)])"
proof -
  let ?a = "rcr2 E" and ?e = "err (frame s)"
  define s1 where "s1 = s\<lparr>cpu := cli (sti (cpu s)),
      trace := trace s @ [Pagefault ?a ?e, Deliver_signal (SIGSEGV K)]\<rparr>"
  have c0: "\<not> cs (frame s) AND 3 = 0" using assms(4) by simp
  have pf: "do_pagefault K E hs s = (Some (if deliver_signal E (SIGSEGV K) then 0 else - 1), s1)"
    using assms(3,5,6,7,8) c0
    by (simp add: do_pagefault_def Let_def emit_def s1_def cli_def sti_def)
  have sw: "trap_switch K E hs s = trap_default K E hs s"
    using assms(1,2) by (simp add: trap_switch_default exceptions_ok_def)
  have v: "unat (trapno (frame s)) \<noteq> T_ILLOP K" "\<not> T_IRQ0 K \<le> unat (trapno (frame s))"
    using assms(1,2) by (auto simp: exceptions_ok_def)
  have s1f: "proc s1 = Some p" "frame s1 = frame s"
    "registered_trap_handlers s1 = registered_trap_handlers s"
    "trace s1 = trace s @ [Pagefault ?a ?e, Deliver_signal (SIGSEGV K)]"
    "\<not> panicked s1"
    using assms(3,9) by (simp_all add: s1_def)
  have acc: "trap K E hs s =
      (if killed p then (Exited, emit (Procexit (- 1)) s1) else (Returned, s1))"
    if "deliver_signal E (SIGSEGV K)"
    using that sw v pf assms(2) s1f(1)
    by (simp add: trap_def trap_default_def Let_def)
  have ref: "trap K E hs s =
      (Exited, s1\<lparr>proc := Some (p\<lparr>killed := True\<rparr>),
                  trace := trace s1 @ [Uerr_println ''--kill proc'', Procexit (- 1)]\<rparr>)"
    if "\<not> deliver_signal E (SIGSEGV K)" "registered_trap_handlers s (T_PGFLT K) = None"
  proof -
    have "trap_switch K E hs s = unexpected_trap K E s1"
      using that sw v pf assms(2) s1f
      by (simp add: trap_default_def registered_or_unexpected_def Let_def)
    also have "\<dots> = (Break, (emit (Uerr_println ''--kill proc'') s1)\<lparr>proc := Some (p\<lparr>killed := True\<rparr>)\<rparr>)"
      using unexpected_trap_user [of s1 p K E] s1f(1,2,5) assms(4) by simp
    finally show ?thesis
      using assms(4) s1f(2)
      by (simp add: trap_def after_switch_def killed_in_user_def emit_def)
  qed
  have two: "take 2 (events_since s (snd (trap K E hs s))) =
           [Pagefault ?a ?e, Deliver_signal (SIGSEGV K)]"
  proof (cases "deliver_signal E (SIGSEGV K)")
    case True
    then show ?thesis by (simp add: acc events_since_def s1f(4))
  next
    case False
    have "unexpected_trap K E s1 = (Break, (emit (Uerr_println ''--kill proc'') s1)\<lparr>proc := Some (p\<lparr>killed := True\<rparr>)\<rparr>)"
      using unexpected_trap_user [of s1 p K E] s1f(1,2,5) assms(4) by simp
    then have u: "trace (snd (unexpected_trap K E s1)) = trace s1 @ [Uerr_println ''--kill proc'']"
      by simp
    show ?thesis
    proof (cases "if unat (trapno (frame s1)) < 256
                  then registered_trap_handlers s1 (unat (trapno (frame s1))) else None")
      case None
      then have "trap_switch K E hs s = unexpected_trap K E s1"
        using False sw v pf assms(2)
        by (simp add: trap_default_def registered_or_unexpected_def Let_def)
      then obtain evs where "trace (snd (trap K E hs s)) = trace s1 @ evs"
        using u after_switch_shape [of "snd (unexpected_trap K E s1)" K E]
          \<open>unexpected_trap K E s1 = _\<close>
        by (auto simp: trap_def)
      then show ?thesis by (simp add: events_since_def s1f(4))
    next
      case (Some h)
      have "\<exists>evs. trace (snd (registered_or_unexpected K E s1)) = trace s1 @ evs"
        using Some
        by (auto simp: registered_or_unexpected_def ensure_secrets_def Let_def emit_def
              split: sum.splits option.splits)
      moreover have "trap_switch K E hs s = registered_or_unexpected K E s1"
        using False sw v pf assms(2) by (simp add: trap_default_def Let_def)
      moreover have "fst (registered_or_unexpected K E s1) \<noteq> Break"
        using Some
        by (auto simp: registered_or_unexpected_def split: option.splits)
      ultimately obtain evs where "trace (snd (trap K E hs s)) = trace s1 @ evs"
        by (cases "registered_or_unexpected K E s1"; cases "fst (registered_or_unexpected K E s1)")
           (auto simp: trap_def)
      then show ?thesis by (simp add: events_since_def s1f(4))
    qed
  qed
  have a: "fst (trap K E hs s) = (if killed p then Exited else Returned)
              \<and> proc (snd (trap K E hs s)) = Some p
              \<and> events_since s (snd (trap K E hs s)) =
                  [Pagefault ?a ?e, Deliver_signal (SIGSEGV K)]
                  @ (if killed p then [Procexit (- 1)] else [])"
    if "deliver_signal E (SIGSEGV K)"
    using acc [OF that] s1f by (simp add: events_since_def)
  have r: "fst (trap K E hs s) = Exited
              \<and> proc (snd (trap K E hs s)) = Some (p\<lparr>killed := True\<rparr>)
              \<and> events_since s (snd (trap K E hs s)) =
                  [Pagefault ?a ?e, Deliver_signal (SIGSEGV K),
                   Uerr_println ''--kill proc'', Procexit (- 1)]"
    if "\<not> deliver_signal E (SIGSEGV K) \<and> registered_trap_handlers s (T_PGFLT K) = None"
    using ref that s1f by (simp add: events_since_def)
  from two a r show ?thesis by blast
qed

lemma exceptions_ok_K0: "exceptions_ok K0"
  by (simp add: exceptions_ok_def case_labels_def K0_def)

theorem user_pagefault_signal_or_kill_witness:
  "exceptions_ok K0
   \<and> unat (trapno (frame (kstate0 (frame0 14 3 4) (Some proc0)))) = T_PGFLT K0
   \<and> proc (kstate0 (frame0 14 3 4) (Some proc0)) = Some proc0
   \<and> cs (frame (kstate0 (frame0 14 3 4) (Some proc0))) AND 3 = 3
   \<and> err (frame (kstate0 (frame0 14 3 4) (Some proc0))) AND FEC_U K0 \<noteq> 0
   \<and> rcr2 (env0 8192) < USERTOP K0 \<and> rcr2 (env0 8192) \<noteq> 123
   \<and> pagefault (env0 8192) (rcr2 (env0 8192)) (err (frame (kstate0 (frame0 14 3 4) (Some proc0)))) < 0
   \<and> \<not> panicked (kstate0 (frame0 14 3 4) (Some proc0))
   \<and> \<not> deliver_signal (env0 8192) (SIGSEGV K0)
   \<and> registered_trap_handlers (kstate0 (frame0 14 3 4) (Some proc0)) (T_PGFLT K0) = None
   \<and> fst (trap K0 (env0 8192) False (kstate0 (frame0 14 3 4) (Some proc0))) = Exited
   \<and> proc (snd (trap K0 (env0 8192) False (kstate0 (frame0 14 3 4) (Some proc0))))
      = Some (proc0\<lparr>killed := True\<rparr>)
   \<and> events_since (kstate0 (frame0 14 3 4) (Some proc0))
        (snd (trap K0 (env0 8192) False (kstate0 (frame0 14 3 4) (Some proc0))))
      = [Pagefault 8192 4, Deliver_signal 11, Uerr_println ''--kill proc'', Procexit (- 1)]
   \<and> deliver_signal ((env0 8192)\<lparr>deliver_signal := (\<lambda>sig. True)\<rparr>) (SIGSEGV K0)
   \<and> fst (trap K0 ((env0 8192)\<lparr>deliver_signal := (\<lambda>sig. True)\<rparr>) False
        (kstate0 (frame0 14 3 4) (Some proc0))) = Returned"
proof -
  let ?s = "kstate0 (frame0 14 3 4) (Some proc0)"
  let ?E = "env0 8192"
  let ?F = "(env0 8192)\<lparr>deliver_signal := (\<lambda>sig. True)\<rparr>"
  have h: "unat (trapno (frame ?s)) = T_PGFLT K0" "proc ?s = Some proc0"
    "cs (frame ?s) AND 3 = 3" "err (frame ?s) AND FEC_U K0 \<noteq> 0"
    by (simp_all add: kstate0_def frame0_def K0_def)
  have n: "\<not> panicked ?s" by (simp add: kstate0_def)
  have e: "rcr2 ?E < USERTOP K0" "rcr2 ?E \<noteq> 123" "pagefault ?E (rcr2 ?E) (err (frame ?s)) < 0"
    by (simp_all add: env0_def K0_def)
  have f: "rcr2 ?F < USERTOP K0" "rcr2 ?F \<noteq> 123" "pagefault ?F (rcr2 ?F) (err (frame ?s)) < 0"
    by (simp_all add: env0_def K0_def)
  have g: "\<not> deliver_signal ?E (SIGSEGV K0)" "registered_trap_handlers ?s (T_PGFLT K0) = None"
    "deliver_signal ?F (SIGSEGV K0)" "\<not> killed proc0" "SIGSEGV K0 = 11" "rcr2 ?E = 8192"
    "err (frame ?s) = 4"
    by (simp_all add: env0_def kstate0_def frame0_def proc0_def K0_def)
  show ?thesis
    using exceptions_ok_K0 h e g n
      user_pagefault_signal_or_kill [OF exceptions_ok_K0 h e n, of False]
      user_pagefault_signal_or_kill [OF exceptions_ok_K0 h f n, of False]
    by simp
qed

subsection \<open>Emulation of popcnt\<close>

lemma bit_7_u64: "bit (7 :: u64) n = (n < 3)"
proof -
  have e: "(7 :: u64) = mask 3" by (simp add: mask_eq_exp_minus_1)
  show ?thesis by (simp only: e bit_mask_iff) auto
qed

lemma bit_15_u64: "bit (15 :: u64) n = (n < 4)"
proof -
  have e: "(15 :: u64) = mask 4" by (simp add: mask_eq_exp_minus_1)
  show ?thesis by (simp only: e bit_mask_iff) auto
qed

lemma regnum_and15:
  fixes a b :: u64
  shows "((a AND 7) OR push_bit 3 (b AND 1)) AND 15 = (a AND 7) OR push_bit 3 (b AND 1)"
  by (rule bit_eqI)
     (auto simp only: bit_and_iff bit_or_iff bit_push_bit_iff bit_7_u64 bit_15_u64 bit_1_iff)

lemma regnum_lt16:
  fixes a b :: u64
  shows "unat ((a AND 7) OR push_bit 3 (b AND 1)) < 16"
proof -
  have "unat (((a AND 7) OR push_bit 3 (b AND 1)) AND 15) \<le> unat (15 :: u64)"
    by (rule word_and_le1 [THEN word_le_nat_alt [THEN iffD1]])
  then show ?thesis by (simp only: regnum_and15) simp
qed

lemma popcnt_rm_lt16: "popcnt_rm instr < 16"
  unfolding popcnt_rm_def by (rule regnum_lt16)

lemma regs_init_nth: "r < 16 \<Longrightarrow> regs_init ! r = (r, 0)"
  by (simp add: regs_init_def)

lemma get_reg_set_reg: "get_reg r (set_reg r v tf) = v"
  by (simp add: get_reg_def set_reg_def)

lemma get_reg_rip [simp]: "get_reg r (tf\<lparr>rip := x\<rparr>) = get_reg r tf"
  by (simp add: get_reg_def)

lemma rip_set_reg [simp]: "rip (set_reg r v tf) = rip tf"
  by (simp add: set_reg_def)

text \<open>
  What the emulation leaves in the frame, for every instruction and frame: the register
  it takes for the destination holds 0, and the instruction pointer has moved on by 5.
  The loop changes the pointer array only.
\<close>

lemma emulate_popcnt_clears_destination:
  "get_reg (popcnt_rm instr) (fst (emulate_popcnt E instr tf)) = 0
   \<and> rip (fst (emulate_popcnt E instr tf)) = rip tf + 5"
  by (simp add: emulate_popcnt_def Let_def regs_init_nth popcnt_rm_lt16 get_reg_set_reg)

text \<open>
  Claim C8 at a concrete input. The trap is an illegal instruction at kernel privilege
  inside the kernel text, the bytes at the instruction pointer match the pattern, the
  source register is \<^verbatim>\<open>rcx\<close> (number 1) and the destination \<^verbatim>\<open>rax\<close> (number 0), and \<^verbatim>\<open>rcx\<close>
  has eight bits set. The dispatcher returns with the instruction pointer advanced by 5
  and \<^verbatim>\<open>rcx\<close> unchanged, but \<^verbatim>\<open>rax\<close> holds 0, not 8: the eight increments went to the
  pointer \<^verbatim>\<open>regs[0]\<close>, which ends eight words behind \<^verbatim>\<open>rax\<close>.
\<close>

theorem popcnt_emulation_failing_input:
  "unat (trapno popcnt_frame) = T_ILLOP K0 \<and> cs popcnt_frame AND 3 = 0
   \<and> KTEXT K0 \<le> rip popcnt_frame \<and> rip popcnt_frame < KTEXTEND K0
   \<and> mem_u64 popcnt_env (rip popcnt_frame) AND 0xc0fffff0ff = 0xc0b80f40f3
   \<and> popcnt_reg (mem_u64 popcnt_env (rip popcnt_frame)) = 1
   \<and> popcnt_rm (mem_u64 popcnt_env (rip popcnt_frame)) = 0
   \<and> popcount (rcx popcnt_frame) = 8
   \<and> fst (trap K0 popcnt_env False (kstate0 popcnt_frame (Some proc0))) = Returned
   \<and> rax (frame (snd (trap K0 popcnt_env False (kstate0 popcnt_frame (Some proc0))))) = 0
   \<and> rcx (frame (snd (trap K0 popcnt_env False (kstate0 popcnt_frame (Some proc0))))) = 0xff
   \<and> rip (frame (snd (trap K0 popcnt_env False (kstate0 popcnt_frame (Some proc0)))))
      = rip popcnt_frame + 5
   \<and> snd (emulate_popcnt popcnt_env 0xc1b80f48f3 popcnt_frame) ! 0 = (0, 8)"
proof -
  have a: "unat (trapno popcnt_frame) = T_ILLOP K0" "cs popcnt_frame AND 3 = 0"
    "KTEXT K0 \<le> rip popcnt_frame" "rip popcnt_frame < KTEXTEND K0"
    "mem_u64 popcnt_env (rip popcnt_frame) AND 0xc0fffff0ff = 0xc0b80f40f3"
    by (simp_all add: popcnt_frame_def popcnt_env_def frame0_def env0_def K0_def)
  have b: "popcnt_reg (mem_u64 popcnt_env (rip popcnt_frame)) = 1"
    "popcnt_rm (mem_u64 popcnt_env (rip popcnt_frame)) = 0"
    by (simp_all add: popcnt_reg_def popcnt_rm_def popcnt_env_def env0_def drop_bit_eq_div)
  have c: "popcount (rcx popcnt_frame) = 8"
    by code_simp
  have d: "snd (emulate_popcnt popcnt_env 0xc1b80f48f3 popcnt_frame) ! 0 = (0, 8)"
    by code_simp
  have t: "trap K0 popcnt_env False (kstate0 popcnt_frame (Some proc0)) =
      (Returned, (kstate0 popcnt_frame (Some proc0))
         \<lparr>frame := fst (emulate_popcnt popcnt_env (mem_u64 popcnt_env (rip popcnt_frame)) popcnt_frame)\<rparr>)"
    using a
    by (simp add: trap_def trap_switch_def trap_default_def Let_def K0_def kstate0_def)
  have e: "fst (emulate_popcnt popcnt_env (mem_u64 popcnt_env (rip popcnt_frame)) popcnt_frame)
      = popcnt_frame\<lparr>rax := 0, rip := rip popcnt_frame + 5\<rparr>"
    using b by (simp add: emulate_popcnt_def Let_def regs_init_nth set_reg_def)
  show ?thesis
    using a b c d by (simp add: t e) (simp add: popcnt_frame_def)
qed

subsection \<open>Timer ticks inside scheduler-suppressed scopes\<close>

lemma is_yield_simps [simp]:
  "is_yield (Yield c)" "\<not> is_yield (Cprintf m)" "\<not> is_yield (Kstats_inc m)"
  "\<not> is_yield (Getcallerpcs a)" "\<not> is_yield Timerintr" "\<not> is_yield Refcache_tick"
  "\<not> is_yield Lapiceoi"
  by (simp_all add: is_yield_def)

text \<open>The prints of the timer case on a kernel that has not panicked.\<close>

lemma timer_prints_ok:
  assumes "\<not> panicked s"
  shows "\<exists>s2 evs. timer_prints K E s = Inr s2
           \<and> no_sched_count (cpu s2) = no_sched_count (cpu s)
           \<and> frame s2 = frame s \<and> panicked s2 = panicked s
           \<and> trace s2 = trace s @ evs \<and> filter is_yield evs = []"
proof (cases "timer_printpc (cpu s) \<noteq> 0")
  case False
  then have "timer_prints K E s = Inr s" by (simp add: timer_prints_def)
  then show ?thesis by simp
next
  case True
  note tp = True
  let ?a = "emit (Cprintf ''cpu: proc rip rsp cs'') s"
  have na: "\<not> panicked ?a" using assms by simp
  show ?thesis
  proof (cases "timer_printpc (cpu s) = 2 \<and> KBASE K < rbp (frame s)")
    case False
    with tp assms have "timer_prints K E s = Inr (?a\<lparr>cpu := (cpu s)\<lparr>timer_printpc := 0\<rparr>\<rparr>)"
      by (auto simp: timer_prints_def)
    moreover have "trace (?a\<lparr>cpu := (cpu s)\<lparr>timer_printpc := 0\<rparr>\<rparr>)
        = trace s @ [Cprintf ''cpu: proc rip rsp cs'']"
      by simp
    ultimately show ?thesis by simp
  next
    case True
    let ?b = "emit (Getcallerpcs (rbp (frame s))) ?a"
    let ?n = "pcs_found E (rbp (frame s)) 0 10"
    have nb: "\<not> panicked ?b" using assms by simp
    from tp True assms have "timer_prints K E s =
        Inr (?b\<lparr>trace := trace ?b @ replicate ?n (Cprintf ''cpu:   pc''),
                cpu := (cpu s)\<lparr>timer_printpc := 0\<rparr>\<rparr>)"
      by (simp add: timer_prints_def print_pcs_ok [OF nb])
    moreover have "trace (?b\<lparr>trace := trace ?b @ replicate ?n (Cprintf ''cpu:   pc''),
                cpu := (cpu s)\<lparr>timer_printpc := 0\<rparr>\<rparr>)
        = trace s @ ([Cprintf ''cpu: proc rip rsp cs'', Getcallerpcs (rbp (frame s))]
                      @ replicate ?n (Cprintf ''cpu:   pc''))"
      by simp
    moreover have "filter is_yield ([Cprintf ''cpu: proc rip rsp cs'', Getcallerpcs (rbp (frame s))]
                      @ replicate ?n (Cprintf ''cpu:   pc'')) = []"
      by simp
    ultimately show ?thesis using assms by auto
  qed
qed

text \<open>
  The trace of the timer case up to the test of \<^verbatim>\<open>no_sched_count\<close>: statistics, prints,
  the timer, the reclamation tick and the end-of-interrupt, and no yield.
\<close>

lemma trap_timer_deferred:
  assumes "no_sched_count (cpu s) \<noteq> 0" and "\<not> panicked s"
  shows "\<exists>s' evs. trap_timer K E s = (Return, s')
           \<and> no_sched_count (cpu s') = no_sched_count (cpu s) OR NO_SCHED_COUNT_YIELD_REQUESTED K
           \<and> trapno (frame s') = trapno (frame s)
           \<and> panicked s' = panicked s
           \<and> trace s' = trace s @ evs @ [Kstats_inc ''sched_blocked_tick_count'']
           \<and> filter is_yield evs = []"
proof -
  define s1 where "s1 = emit (Kstats_inc ''sched_tick_count'') s"
  have p1: "no_sched_count (cpu s1) = no_sched_count (cpu s)" "trapno (frame s1) = trapno (frame s)"
    "trace s1 = trace s @ [Kstats_inc ''sched_tick_count'']" "panicked s1 = panicked s"
    by (simp_all add: s1_def)
  have "\<not> panicked s1" using assms(2) p1(4) by simp
  from timer_prints_ok [OF this, of K E] obtain s2 e2 where
    tp: "timer_prints K E s1 = Inr s2"
    and p2: "no_sched_count (cpu s2) = no_sched_count (cpu s1)"
      "trapno (frame s2) = trapno (frame s1)" "trace s2 = trace s1 @ e2" "filter is_yield e2 = []"
      "panicked s2 = panicked s1"
    by auto
  define s3 where "s3 = (if cpu_id (cpu s2) = 0 then
                  (let a = emit Timerintr s2 in
                   if ENTRY_COUNT a \<noteq> 0xffffffff then
                     (let b = record_entry_time a in
                      if ENTRY_COUNT b = 100
                      then b\<lparr>frame := (frame b)\<lparr>rip := 0x100f\<rparr>\<rparr> else b)
                   else a)
                else s2)"
  define s5 where "s5 = emit Lapiceoi (emit Refcache_tick s3)"
  have t: "trap_timer K E s =
      (if no_sched_count (cpu s5) \<noteq> 0 then
           (let s6 = emit (Kstats_inc ''sched_blocked_tick_count'') s5
            in (Return,
                s6\<lparr>cpu := (cpu s6)\<lparr>no_sched_count :=
                       no_sched_count (cpu s6) OR NO_SCHED_COUNT_YIELD_REQUESTED K\<rparr>\<rparr>))
         else (Break, s5))"
    unfolding trap_timer_def s3_def s5_def Let_def
    using tp by (simp add: s1_def)
  obtain e3 where p3: "no_sched_count (cpu s3) = no_sched_count (cpu s2)"
    "trapno (frame s3) = trapno (frame s2)" "trace s3 = trace s2 @ e3" "filter is_yield e3 = []"
    "panicked s3 = panicked s2"
  proof (cases "cpu_id (cpu s2) = 0")
    case False
    then have "s3 = s2" by (simp add: s3_def)
    then show ?thesis using that [of "[]"] by simp
  next
    case True
    then have "no_sched_count (cpu s3) = no_sched_count (cpu s2)"
      "trapno (frame s3) = trapno (frame s2)" "trace s3 = trace s2 @ [Timerintr]"
      "panicked s3 = panicked s2"
      by (simp_all add: s3_def Let_def record_entry_time_def)
    then show ?thesis using that [of "[Timerintr]"] by simp
  qed
  have p5: "no_sched_count (cpu s5) = no_sched_count (cpu s3)"
    "trapno (frame s5) = trapno (frame s3)" "trace s5 = trace s3 @ [Refcache_tick, Lapiceoi]"
    "panicked s5 = panicked s3"
    by (simp_all add: s5_def)
  have nz: "no_sched_count (cpu s5) \<noteq> 0"
    using assms p1(1) p2(1) p3(1) p5(1) by simp
  let ?evs = "[Kstats_inc ''sched_tick_count''] @ e2 @ e3 @ [Refcache_tick, Lapiceoi]"
  let ?s' = "(emit (Kstats_inc ''sched_blocked_tick_count'') s5)
      \<lparr>cpu := (cpu s5)\<lparr>no_sched_count :=
             no_sched_count (cpu s5) OR NO_SCHED_COUNT_YIELD_REQUESTED K\<rparr>\<rparr>"
  have "trap_timer K E s = (Return, ?s')"
    using nz by (simp add: t Let_def)
  moreover have "no_sched_count (cpu ?s') = no_sched_count (cpu s) OR NO_SCHED_COUNT_YIELD_REQUESTED K"
    using p1(1) p2(1) p3(1) p5(1) by simp
  moreover have "trapno (frame ?s') = trapno (frame s)"
    using p1(2) p2(2) p3(2) p5(2) by simp
  moreover have "panicked ?s' = panicked s"
    using p1(4) p2(5) p3(5) p5(4) by simp
  moreover have "trace ?s' = trace s @ ?evs @ [Kstats_inc ''sched_blocked_tick_count'']"
    using p1(3) p2(3) p3(3) p5(3) by simp
  moreover have "filter is_yield ?evs = []"
    using p2(4) p3(4) by simp
  ultimately show ?thesis by blast
qed

lemma trap_timer_tick:
  assumes "unat (trapno (frame s)) = T_IRQ0 K + IRQ_TIMER K" and "no_sched_count (cpu s) \<noteq> 0"
    and "\<not> panicked s"
  shows "\<exists>s' evs. trap K E hs s = (Returned, s')
           \<and> no_sched_count (cpu s') = no_sched_count (cpu s) OR NO_SCHED_COUNT_YIELD_REQUESTED K
           \<and> trapno (frame s') = trapno (frame s)
           \<and> panicked s' = panicked s
           \<and> trace s' = trace s @ evs @ [Kstats_inc ''sched_blocked_tick_count'']
           \<and> filter is_yield evs = []"
proof -
  from trap_timer_deferred [OF assms(2,3), of K E] obtain s' evs where
    r: "trap_timer K E s = (Return, s')"
      "no_sched_count (cpu s') = no_sched_count (cpu s) OR NO_SCHED_COUNT_YIELD_REQUESTED K"
      "trapno (frame s') = trapno (frame s)"
      "panicked s' = panicked s"
      "trace s' = trace s @ evs @ [Kstats_inc ''sched_blocked_tick_count'']"
      "filter is_yield evs = []"
    by blast
  have "trap K E hs s = (Returned, s')"
    using assms(1) r(1) by (simp add: trap_def trap_switch_def Let_def)
  with r show ?thesis by blast
qed

text \<open>The counter and the yield request occupy different bits.\<close>

lemma count_or_flag:
  assumes "d < 2 ^ k"
  shows "(of_nat d :: u64) OR 2 ^ k = of_nat d + 2 ^ k"
proof (rule disjunctive_add_eq_or [symmetric])
  show "(of_nat d :: u64) AND 2 ^ k = 0"
  proof (rule bit_eqI)
    fix n
    have "\<not> bit d k"
      using assms by (simp add: bit_iff_odd)
    then show "bit ((of_nat d :: u64) AND 2 ^ k) n = bit (0 :: u64) n"
      by (auto simp: bit_and_iff bit_exp_iff bit_of_nat_iff)
  qed
qed

lemma count_flag_or_flag:
  assumes "d < 2 ^ k"
  shows "((of_nat d :: u64) + 2 ^ k) OR 2 ^ k = of_nat d + 2 ^ k"
  by (simp add: count_or_flag [OF assms, symmetric] or.assoc)

lemma flag_nonzero: "k < 64 \<Longrightarrow> (2 ^ k :: u64) \<noteq> 0"
  by simp

lemma count_flag_nonzero:
  assumes "d < 2 ^ k" "k < 64"
  shows "(of_nat d :: u64) + 2 ^ k \<noteq> 0"
  using flag_nonzero [OF assms(2)]
  by (simp add: count_or_flag [OF assms(1), symmetric] or_eq_0_iff)

lemma count_nonzero:
  assumes "0 < d" "d < 2 ^ k" "k < 64"
  shows "(of_nat d :: u64) \<noteq> 0"
proof -
  have "(2::nat) ^ k < 2 ^ 64" using assms(3) by (intro power_strict_increasing) simp_all
  with assms have "d < 2 ^ 64" by linarith
  then have "unat (of_nat d :: u64) = d" by (simp add: unat_of_nat)
  with assms(1) show ?thesis by (auto simp: unat_eq_0 [symmetric] simp del: unat_eq_0)
qed

lemma count_neq_flag:
  assumes "d < 2 ^ k" "k < 64"
  shows "(of_nat d :: u64) \<noteq> 2 ^ k"
proof
  assume e: "(of_nat d :: u64) = 2 ^ k"
  have "\<not> bit d k"
    using assms(1) by (simp add: bit_iff_odd)
  then have "\<not> bit (of_nat d :: u64) k" by (simp add: bit_of_nat_iff)
  moreover have "bit (2 ^ k :: u64) k" using assms(2) by (simp add: bit_exp_iff)
  ultimately show False using e by simp
qed

lemma deepest_ge: "d \<le> deepest d os"
  by (induction d os rule: deepest.induct) auto

lemma run_crit_append:
  "run_crit K E (xs @ ys) s =
     (case run_crit K E xs s of None \<Rightarrow> None | Some s' \<Rightarrow> run_crit K E ys s')"
  by (induction K E xs s rule: run_crit.induct) (auto split: prod.splits outcome.splits)

text \<open>The invariant says that the trace extends \<open>tr\<close> by events that are no yield.\<close>

lemma crit_inv_iff:
  "crit_inv K k tr d f s \<longleftrightarrow>
     no_sched_count (cpu s) = of_nat d + (if f then 2 ^ k else 0)
     \<and> unat (trapno (frame s)) = T_IRQ0 K + IRQ_TIMER K
     \<and> \<not> panicked s
     \<and> (\<exists>evs. trace s = tr @ evs \<and> filter is_yield evs = [])"
proof -
  have "(take (length tr) (trace s) = tr \<and> filter is_yield (drop (length tr) (trace s)) = [])
        \<longleftrightarrow> (\<exists>evs. trace s = tr @ evs \<and> filter is_yield evs = [])"
  proof
    assume a: "take (length tr) (trace s) = tr \<and> filter is_yield (drop (length tr) (trace s)) = []"
    have "trace s = take (length tr) (trace s) @ drop (length tr) (trace s)" by simp
    with a have "trace s = tr @ drop (length tr) (trace s)" by simp
    with a show "\<exists>evs. trace s = tr @ evs \<and> filter is_yield evs = []" by blast
  next
    assume "\<exists>evs. trace s = tr @ evs \<and> filter is_yield evs = []"
    then show "take (length tr) (trace s) = tr \<and> filter is_yield (drop (length tr) (trace s)) = []"
      by auto
  qed
  then show ?thesis unfolding crit_inv_def by blast
qed

text \<open>One step inside a scope keeps the invariant.\<close>

lemma enter_inv:
  assumes "crit_inv K k tr d f s"
  shows "crit_inv K k tr (Suc d) f (scoped_enter s)"
  using assms by (simp add: crit_inv_def scoped_enter_def modify_no_sched_count_def)

lemma leave_inner_inv:
  assumes "crit_inv K k tr d f s" and "1 < d" and "d < 2 ^ k" and "k < 64"
    and "NO_SCHED_COUNT_YIELD_REQUESTED K = 2 ^ k"
  shows "crit_inv K k tr (d - 1) f (scoped_release K E s)"
proof -
  from assms(2) obtain e where e: "d = Suc e" "0 < e" by (cases d) auto
  with assms(3) have el: "e < 2 ^ k" by simp
  have c: "no_sched_count (cpu s) - 1 = of_nat e + (if f then 2 ^ k else 0)"
    using assms(1) e by (simp add: crit_inv_def)
  have "no_sched_count (cpu s) - 1 \<noteq> 2 ^ k"
  proof (cases f)
    case True
    then show ?thesis using c count_nonzero [OF e(2) el assms(4)] by simp
  next
    case False
    then show ?thesis using c count_neq_flag [OF el assms(4)] by simp
  qed
  then have "scoped_release K E s = modify_no_sched_count (- 1) s"
    using assms(5) by (simp add: scoped_release_def Let_def modify_no_sched_count_def)
  then show ?thesis
    using assms(1) c e by (simp add: crit_inv_def modify_no_sched_count_def)
qed

lemma tick_inv:
  assumes "crit_inv K k tr d f s" and "0 < d" and "d < 2 ^ k" and "k < 64"
    and "NO_SCHED_COUNT_YIELD_REQUESTED K = 2 ^ k"
  shows "\<exists>s'. trap K E False s = (Returned, s') \<and> crit_inv K k tr d True s'"
proof -
  from assms(1) have v: "unat (trapno (frame s)) = T_IRQ0 K + IRQ_TIMER K"
    and c: "no_sched_count (cpu s) = of_nat d + (if f then 2 ^ k else 0)"
    and np: "\<not> panicked s"
    by (simp_all add: crit_inv_def)
  from assms(1) obtain evs where t: "trace s = tr @ evs" "filter is_yield evs = []"
    by (auto simp: crit_inv_iff)
  have nz: "no_sched_count (cpu s) \<noteq> 0"
    using c count_nonzero [OF assms(2,3,4)] count_flag_nonzero [OF assms(3,4)] by (cases f) simp_all
  from trap_timer_tick [OF v nz np, of E False] obtain s' evs' where
    r: "trap K E False s = (Returned, s')"
      "no_sched_count (cpu s') = no_sched_count (cpu s) OR NO_SCHED_COUNT_YIELD_REQUESTED K"
      "trapno (frame s') = trapno (frame s)"
      "panicked s' = panicked s"
      "trace s' = trace s @ evs' @ [Kstats_inc ''sched_blocked_tick_count'']"
      "filter is_yield evs' = []"
    by blast
  have n: "no_sched_count (cpu s') = of_nat d + 2 ^ k"
    using r(2) c assms(5) count_or_flag [OF assms(3)] count_flag_or_flag [OF assms(3)]
    by (cases f) simp_all
  have "trace s' = tr @ (evs @ evs' @ [Kstats_inc ''sched_blocked_tick_count''])"
    using r(5) t(1) by simp
  moreover have "filter is_yield (evs @ evs' @ [Kstats_inc ''sched_blocked_tick_count'']) = []"
    using t(2) r(6) by simp
  ultimately have "\<exists>e. trace s' = tr @ e \<and> filter is_yield e = []"
    by blast
  then have "crit_inv K k tr d True s'"
    using n v r(3,4) np by (simp add: crit_inv_iff)
  with r(1) show ?thesis by blast
qed

lemma run_crit_inner:
  "crit_inv K k tr d f s \<Longrightarrow> 0 < d \<Longrightarrow> inner d os = Some d' \<Longrightarrow> deepest d os < 2 ^ k \<Longrightarrow>
   k < 64 \<Longrightarrow> NO_SCHED_COUNT_YIELD_REQUESTED K = 2 ^ k \<Longrightarrow>
   \<exists>s'. run_crit K E os s = Some s' \<and> crit_inv K k tr d' (f \<or> Tick \<in> set os) s' \<and> 0 < d'"
proof (induction os arbitrary: d f s)
  case Nil
  then show ?case by simp
next
  case (Cons a os)
  show ?case
  proof (cases a)
    case Enter
    have "Suc d \<le> deepest (Suc d) os" by (rule deepest_ge)
    from Cons.IH [of "Suc d" f "scoped_enter s"] Cons.prems Enter enter_inv [OF Cons.prems(1)]
    show ?thesis by simp
  next
    case Leave
    with Cons.prems(3) have d: "1 < d" and i: "inner (d - 1) os = Some d'"
      by (simp_all split: if_splits)
    have dl: "d < 2 ^ k"
      using Cons.prems(4) Leave by simp
    have "crit_inv K k tr (d - 1) f (scoped_release K E s)"
      using leave_inner_inv [OF Cons.prems(1) d dl Cons.prems(5,6)] .
    from Cons.IH [OF this _ i] Cons.prems Leave d
    show ?thesis by simp
  next
    case Tick
    have dl: "d < 2 ^ k"
      using Cons.prems(4) Tick deepest_ge [of d os] by simp
    from tick_inv [OF Cons.prems(1,2) dl Cons.prems(5,6), of E] obtain s1 where
      s1: "trap K E False s = (Returned, s1)" "crit_inv K k tr d True s1"
      by blast
    from Cons.IH [OF s1(2) Cons.prems(2)] Cons.prems Tick
    obtain s' where "run_crit K E os s1 = Some s'" "crit_inv K k tr d' (True \<or> Tick \<in> set os) s'"
      "0 < d'"
      by auto
    with s1(1) Tick show ?thesis by simp
  qed
qed

lemma tick_deferred:
  assumes "unat (trapno (frame s1)) = T_IRQ0 K + IRQ_TIMER K" and "no_sched_count (cpu s1) \<noteq> 0"
    and "\<not> panicked s1"
  shows "fst (trap K E hs s1) = Returned
         \<and> filter is_yield (events_since s1 (snd (trap K E hs s1))) = []
         \<and> last (events_since s1 (snd (trap K E hs s1))) = Kstats_inc ''sched_blocked_tick_count''
         \<and> no_sched_count (cpu (snd (trap K E hs s1))) =
             no_sched_count (cpu s1) OR NO_SCHED_COUNT_YIELD_REQUESTED K"
proof -
  from trap_timer_tick [OF assms, of E hs] obtain s' evs where
    r: "trap K E hs s1 = (Returned, s')"
      "no_sched_count (cpu s') = no_sched_count (cpu s1) OR NO_SCHED_COUNT_YIELD_REQUESTED K"
      "trace s' = trace s1 @ evs @ [Kstats_inc ''sched_blocked_tick_count'']"
      "filter is_yield evs = []"
    by blast
  have "events_since s1 s' = evs @ [Kstats_inc ''sched_blocked_tick_count'']"
    using r(3) by (intro events_since_append) simp
  with r show ?thesis by simp
qed

lemma scope_yields_once:
  assumes "unat (trapno (frame s)) = T_IRQ0 K + IRQ_TIMER K"
    and "NO_SCHED_COUNT_YIELD_REQUESTED K = 2 ^ k" and "k < 64"
    and "no_sched_count (cpu s) = 0" and "\<not> panicked s"
    and "inner 1 body = Some 1" and "deepest 1 body < 2 ^ k"
  shows "\<exists>sb s'. run_crit K E (Enter # body) s = Some sb
               \<and> filter is_yield (events_since s sb) = []
               \<and> run_crit K E [Leave] sb = Some s'
               \<and> run_crit K E (Enter # body @ [Leave]) s = Some s'
               \<and> no_sched_count (cpu s') = 0
               \<and> events_since sb s' =
                   (if Tick \<in> set body then [Kstats_inc ''sched_delayed_tick_count'', Yield 0] else [])
               \<and> length (filter is_yield (events_since s s')) = (if Tick \<in> set body then 1 else 0)"
proof -
  let ?F = "NO_SCHED_COUNT_YIELD_REQUESTED K"
  let ?f = "Tick \<in> set body"
  have i0: "crit_inv K k (trace s) 1 False (scoped_enter s)"
    using assms(1,4,5) by (simp add: crit_inv_def scoped_enter_def modify_no_sched_count_def)
  from run_crit_inner [OF i0 _ assms(6,7,3,2), of E] obtain sb where
    sb: "run_crit K E body (scoped_enter s) = Some sb" "crit_inv K k (trace s) 1 (False \<or> ?f) sb"
    by auto
  from sb(2) obtain evs where
    c: "no_sched_count (cpu sb) = 1 + (if ?f then 2 ^ k else 0)"
    and t: "trace sb = trace s @ evs" "filter is_yield evs = []"
    by (auto simp: crit_inv_iff)
  have rb: "run_crit K E (Enter # body) s = Some sb"
    using sb(1) by simp
  have eb: "events_since s sb = evs"
    using t(1) by (rule events_since_append)
  have rl: "run_crit K E [Leave] sb = Some (scoped_release K E sb)"
    by simp
  have run: "run_crit K E (Enter # body @ [Leave]) s = Some (scoped_release K E sb)"
    using sb(1) by (simp add: run_crit_append)
  let ?s1 = "modify_no_sched_count (- 1) sb"
  have c1: "no_sched_count (cpu ?s1) = (if ?f then 2 ^ k else 0)"
    using c by (simp add: modify_no_sched_count_def)
  have fin: "no_sched_count (cpu (scoped_release K E sb)) = 0
      \<and> trace (scoped_release K E sb) =
          trace sb @ (if ?f then [Kstats_inc ''sched_delayed_tick_count'', Yield 0] else [])"
  proof (cases ?f)
    case False
    then have "no_sched_count (cpu ?s1) \<noteq> ?F"
      using c1 assms(2) flag_nonzero [OF assms(3)] by simp
    then have "scoped_release K E sb = ?s1"
      by (simp add: scoped_release_def Let_def)
    with False c1 show ?thesis by (simp add: modify_no_sched_count_def)
  next
    case True
    let ?s2 = "modify_no_sched_count (- ?F) (emit (Kstats_inc ''sched_delayed_tick_count'') ?s1)"
    have r: "scoped_release K E sb = yield E ?s2"
      using True c1 assms(2) by (simp add: scoped_release_def release_yield_def Let_def)
    have z: "no_sched_count (cpu ?s2) = 0"
      using True c1 assms(2) by (simp add: modify_no_sched_count_def)
    have "trace (yield E ?s2) = trace ?s2 @ [Yield 0]"
      using z by simp
    then have "trace (yield E ?s2) = trace sb @ [Kstats_inc ''sched_delayed_tick_count'', Yield 0]"
      by (simp add: modify_no_sched_count_def)
    with True r z show ?thesis by simp
  qed
  then have el: "events_since sb (scoped_release K E sb) =
      (if ?f then [Kstats_inc ''sched_delayed_tick_count'', Yield 0] else [])"
    by (intro events_since_append) simp
  have "trace (scoped_release K E sb) =
      trace s @ (evs @ (if ?f then [Kstats_inc ''sched_delayed_tick_count'', Yield 0] else []))"
    using fin t(1) by simp
  then have "events_since s (scoped_release K E sb) =
      evs @ (if ?f then [Kstats_inc ''sched_delayed_tick_count'', Yield 0] else [])"
    by (rule events_since_append)
  then have n: "length (filter is_yield (events_since s (scoped_release K E sb))) = (if ?f then 1 else 0)"
    using t(2) by simp
  show ?thesis
    using rb eb t(2) rl run fin el n by simp
qed

text \<open>
  Claim C5, on a kernel that has not panicked. (1) A timer tick that arrives while
  \<^verbatim>\<open>no_sched_count\<close> is not zero returns at once: it does not yield, it counts the tick in
  \<^verbatim>\<open>sched_blocked_tick_count\<close>, and it sets the yield request in the counter. (2) Let the
  yield request be the bit \<open>2 ^ k\<close> and take a core outside every scope (counter 0) whose
  frame is a timer frame. Run a scope: enter, then a body of enters, leaves and timer
  ticks that stays inside the scope and nests less than \<open>2 ^ k\<close> deep, then the matching
  leave. Up to the last leave nothing yields. The last leave, which leaves the outermost
  scope, completes with the counter at 0; if no tick arrived in the body it has no event;
  if a tick arrived its events are the count in \<^verbatim>\<open>sched_delayed_tick_count\<close> and then one
  yield, and \<^verbatim>\<open>yield\<close> is called when the counter is 0: the request has been cleared before
  the yield. So the whole scope has exactly one yield if a tick arrived and none
  otherwise.
\<close>

theorem deferred_yield_once:
  "(unat (trapno (frame s1)) = T_IRQ0 K + IRQ_TIMER K \<and> no_sched_count (cpu s1) \<noteq> 0
      \<and> \<not> panicked s1 \<longrightarrow>
      fst (trap K E hs s1) = Returned
      \<and> filter is_yield (events_since s1 (snd (trap K E hs s1))) = []
      \<and> last (events_since s1 (snd (trap K E hs s1))) = Kstats_inc ''sched_blocked_tick_count''
      \<and> no_sched_count (cpu (snd (trap K E hs s1))) =
          no_sched_count (cpu s1) OR NO_SCHED_COUNT_YIELD_REQUESTED K)
   \<and> (unat (trapno (frame s)) = T_IRQ0 K + IRQ_TIMER K
        \<and> NO_SCHED_COUNT_YIELD_REQUESTED K = 2 ^ k \<and> k < 64
        \<and> no_sched_count (cpu s) = 0 \<and> \<not> panicked s
        \<and> inner 1 body = Some 1 \<and> deepest 1 body < 2 ^ k \<longrightarrow>
      (\<exists>sb s'. run_crit K E (Enter # body) s = Some sb
         \<and> filter is_yield (events_since s sb) = []
         \<and> run_crit K E [Leave] sb = Some s'
         \<and> run_crit K E (Enter # body @ [Leave]) s = Some s'
         \<and> no_sched_count (cpu s') = 0
         \<and> events_since sb s' =
             (if Tick \<in> set body then [Kstats_inc ''sched_delayed_tick_count'', Yield 0] else [])
         \<and> length (filter is_yield (events_since s s')) = (if Tick \<in> set body then 1 else 0)))"
  using tick_deferred [of s1 K E hs] scope_yields_once [of s K k body E]
  by blast

theorem deferred_yield_once_witness:
  "unat (trapno (frame (kstate0 (frame0 32 0 0) (Some proc0)))) = T_IRQ0 K0 + IRQ_TIMER K0
   \<and> NO_SCHED_COUNT_YIELD_REQUESTED K0 = 2 ^ 31 \<and> (31 :: nat) < 64
   \<and> no_sched_count (cpu (kstate0 (frame0 32 0 0) (Some proc0))) = 0
   \<and> \<not> panicked (kstate0 (frame0 32 0 0) (Some proc0))
   \<and> inner 1 [Enter, Tick, Leave, Tick] = Some 1 \<and> deepest 1 [Enter, Tick, Leave, Tick] < 2 ^ 31
   \<and> Tick \<in> set [Enter, Tick, Leave, Tick]
   \<and> (\<exists>sb s'. run_crit K0 (env0 0) (Enter # [Enter, Tick, Leave, Tick])
               (kstate0 (frame0 32 0 0) (Some proc0)) = Some sb
         \<and> run_crit K0 (env0 0) (Enter # [Enter, Tick, Leave, Tick] @ [Leave])
               (kstate0 (frame0 32 0 0) (Some proc0)) = Some s'
         \<and> no_sched_count (cpu s') = 0
         \<and> events_since sb s' = [Kstats_inc ''sched_delayed_tick_count'', Yield 0]
         \<and> length (filter is_yield (events_since (kstate0 (frame0 32 0 0) (Some proc0)) s')) = 1)
   \<and> no_sched_count (cpu ((kstate0 (frame0 32 0 0) (Some proc0))
        \<lparr>cpu := (cpu0\<lparr>no_sched_count := 2\<rparr>)\<rparr>)) \<noteq> 0
   \<and> events_since ((kstate0 (frame0 32 0 0) (Some proc0))\<lparr>cpu := (cpu0\<lparr>no_sched_count := 2\<rparr>)\<rparr>)
        (snd (trap K0 (env0 0) False
           ((kstate0 (frame0 32 0 0) (Some proc0))\<lparr>cpu := (cpu0\<lparr>no_sched_count := 2\<rparr>)\<rparr>)))
      = [Kstats_inc ''sched_tick_count'', Timerintr, Refcache_tick, Lapiceoi,
         Kstats_inc ''sched_blocked_tick_count'']"
proof -
  let ?s = "kstate0 (frame0 32 0 0) (Some proc0)"
  let ?b = "[Enter, Tick, Leave, Tick]"
  have a: "unat (trapno (frame ?s)) = T_IRQ0 K0 + IRQ_TIMER K0"
    "NO_SCHED_COUNT_YIELD_REQUESTED K0 = 2 ^ 31" "(31 :: nat) < 64"
    "no_sched_count (cpu ?s) = 0" "\<not> panicked ?s"
    by (simp_all add: kstate0_def frame0_def cpu0_def K0_def)
  have b: "inner 1 ?b = Some 1" "deepest 1 ?b < 2 ^ 31" "Tick \<in> set ?b"
    by simp_all
  have c: "no_sched_count (cpu (?s\<lparr>cpu := (cpu0\<lparr>no_sched_count := 2\<rparr>)\<rparr>)) \<noteq> 0"
    by simp
  have d: "events_since (?s\<lparr>cpu := (cpu0\<lparr>no_sched_count := 2\<rparr>)\<rparr>)
        (snd (trap K0 (env0 0) False (?s\<lparr>cpu := (cpu0\<lparr>no_sched_count := 2\<rparr>)\<rparr>)))
      = [Kstats_inc ''sched_tick_count'', Timerintr, Refcache_tick, Lapiceoi,
         Kstats_inc ''sched_blocked_tick_count'']"
    by (simp add: events_since_def trap_def trap_switch_def trap_timer_def timer_prints_def
          Let_def kstate0_def frame0_def cpu0_def K0_def emit_def)
  from deferred_yield_once [where K = K0 and s = "kstate0 (frame0 32 0 0) (Some proc0)"
      and k = 31 and body = "[Enter, Tick, Leave, Tick]" and E = "env0 0" and hs = False
      and ?s1.0 = "(kstate0 (frame0 32 0 0) (Some proc0))\<lparr>cpu := (cpu0\<lparr>no_sched_count := 2\<rparr>)\<rparr>"]
    a b
  have "\<exists>sb s'. run_crit K0 (env0 0) (Enter # ?b) ?s = Some sb
         \<and> run_crit K0 (env0 0) (Enter # ?b @ [Leave]) ?s = Some s'
         \<and> no_sched_count (cpu s') = 0
         \<and> events_since sb s' = [Kstats_inc ''sched_delayed_tick_count'', Yield 0]
         \<and> length (filter is_yield (events_since ?s s')) = 1"
    by auto
  with a b c d show ?thesis by simp
qed

end
